theory Spec2Isabelle
  imports Main "HOL-Library.Word" "HOL-Library.Sublist" "HOL-Library.Multiset"
begin

section \<open>JavaScript string primitives used by the feed normalizer and the client\<close>

text \<open>
  A JavaScript string is a sequence of UTF-16 code units: \<open>startsWith\<close>, \<open>includes\<close>,
  \<open>replace\<close>, \<open>split\<close>, \<open>slice\<close> and \<open>trim\<close> all work on code units. A character
  outside the basic plane is a pair of surrogate units.
\<close>

type_synonym jschar = "16 word"

type_synonym jsstring = "jschar list"

text \<open>
  The code units of a string literal of the program whose characters are all ASCII:
  each character is one unit, its ASCII code.
\<close>

definition lit :: "string \<Rightarrow> jsstring" where
  "lit s = map of_char s"

text \<open>
  White space as \<open>trim\<close> and the class \<open>\s\<close> of regular expressions take it: the
  WhiteSpace and LineTerminator code points of the language, every one of them a
  single code unit. They are tab, line feed, vertical tab, form feed, carriage return,
  space, no-break space, U+1680, U+2000 to U+200A, line separator, paragraph separator,
  U+202F, U+205F, U+3000 and the byte order mark U+FEFF.
\<close>

definition is_space :: "jschar \<Rightarrow> bool" where
  "is_space c \<longleftrightarrow>
     c \<in> {0x0009, 0x000A, 0x000B, 0x000C, 0x000D, 0x0020, 0x00A0, 0x1680,
          0x2000, 0x2001, 0x2002, 0x2003, 0x2004, 0x2005, 0x2006, 0x2007, 0x2008, 0x2009, 0x200A,
          0x2028, 0x2029, 0x202F, 0x205F, 0x3000, 0xFEFF}"

text \<open>\<open>s.trim()\<close>\<close>

definition js_trim :: "jsstring \<Rightarrow> jsstring" where
  "js_trim s = rev (dropWhile is_space (rev (dropWhile is_space s)))"

text \<open>\<open>s.includes(pat)\<close>\<close>

fun js_includes :: "'a list \<Rightarrow> 'a list \<Rightarrow> bool" where
  "js_includes pat [] = (pat = [])"
| "js_includes pat (c # cs) = (prefix pat (c # cs) \<or> js_includes pat cs)"

text \<open>
  \<open>s.replace(pat, rep)\<close> with a string pattern: only the first occurrence is
  replaced (the replacement strings of the program contain no \<open>$\<close>).
\<close>

fun js_replace :: "jsstring \<Rightarrow> jsstring \<Rightarrow> jsstring \<Rightarrow> jsstring" where
  "js_replace pat rep [] = (if pat = [] then rep else [])"
| "js_replace pat rep (c # cs) =
     (if prefix pat (c # cs) then rep @ drop (length pat) (c # cs)
      else c # js_replace pat rep cs)"

text \<open>
  \<open>s.split(sep)\<close> with a non-empty string separator: the separators are found from
  left to right, each search starting behind the previous match; the result always
  has at least one piece. (With the empty separator JavaScript splits into code
  units; the program never does that, and the model returns the string whole.)
\<close>

function js_split_from :: "'a list \<Rightarrow> 'a list \<Rightarrow> 'a list \<Rightarrow> 'a list list" where
  "js_split_from sep acc [] = [acc]"
| "js_split_from sep acc (c # cs) =
     (if sep \<noteq> [] \<and> prefix sep (c # cs)
      then acc # js_split_from sep [] (drop (length sep) (c # cs))
      else js_split_from sep (acc @ [c]) cs)"
  by pat_completeness auto
termination
  by (relation "measure (\<lambda>(sep, acc, s). length s)") (auto simp: neq_Nil_conv)

definition js_split :: "'a list \<Rightarrow> 'a list \<Rightarrow> 'a list list" where
  "js_split sep s = js_split_from sep [] s"

text \<open>\<open>pieces.join(sep)\<close>\<close>

fun js_join :: "'a list \<Rightarrow> 'a list list \<Rightarrow> 'a list" where
  "js_join sep [] = []"
| "js_join sep [p] = p"
| "js_join sep (p # q # ps) = p @ sep @ js_join sep (q # ps)"

text \<open>
  \<open>s.split(/\s+/)\<close>: the pieces between maximal runs of white space. White space at
  the start or the end of \<open>s\<close> gives an empty first or last piece.
\<close>

function js_split_ws_from :: "jsstring \<Rightarrow> jsstring \<Rightarrow> jsstring list" where
  "js_split_ws_from acc [] = [acc]"
| "js_split_ws_from acc (c # cs) =
     (if is_space c then acc # js_split_ws_from [] (dropWhile is_space cs)
      else js_split_ws_from (acc @ [c]) cs)"
  by pat_completeness auto
termination
  by (relation "measure (\<lambda>(acc, s). length s)")
     (auto simp: less_Suc_eq_le length_dropWhile_le)

definition js_split_ws :: "jsstring \<Rightarrow> jsstring list" where
  "js_split_ws s = js_split_ws_from [] s"

section \<open>The feed normalizer \<open>parseRSS\<close>\<close>

subsection \<open>Publisher\<close>

text \<open>\<open>publisher.replace("https://", "").replace("www.", "")\<close>\<close>

definition publisher_of :: "jsstring \<Rightarrow> jsstring" where
  "publisher_of url = js_replace (lit ''www.'') [] (js_replace (lit ''https://'') [] url)"

subsection \<open>Headline\<close>

text \<open>
  The only failure inside \<open>parseRSS\<close> is the \<open>TypeError\<close> that JavaScript raises
  when a method is called on \<open>undefined\<close>. It carries the runtime's fixed message and
  nothing about the entry it came from.
\<close>

datatype js_error = TypeError

text \<open>\<open>newsHeadline.replace(/\n/g, "")\<close>\<close>

definition removeNewlines :: "jsstring \<Rightarrow> jsstring" where
  "removeNewlines s = filter (\<lambda>c. c \<noteq> 0x0A) s"

text \<open>\<open>newsHeadline.split(" - ").slice(0, -1).join(" ")\<close>\<close>

definition dropLastSegment :: "jsstring \<Rightarrow> jsstring" where
  "dropLastSegment s = js_join (lit '' '') (butlast (js_split (lit '' - '') s))"

text \<open>
  \<open>newsHeadline.split("|")[0].trim()\<close>. Indexing an empty array gives \<open>undefined\<close>,
  on which \<open>trim\<close> raises.
\<close>

definition cutAtBar :: "jsstring \<Rightarrow> js_error + jsstring" where
  "cutAtBar s = (case js_split (lit ''|'') s of [] \<Rightarrow> Inl TypeError | p # _ \<Rightarrow> Inr (js_trim p))"

text \<open>The four statements on \<open>newsHeadline\<close>, ending with \<open>split(/\s+/).join(" ")\<close>.\<close>

definition newsHeadline_of :: "jsstring \<Rightarrow> js_error + jsstring" where
  "newsHeadline_of title =
     (case cutAtBar (dropLastSegment (removeNewlines title)) of
        Inl e \<Rightarrow> Inl e
      | Inr h \<Rightarrow> Inr (js_join (lit '' '') (js_split_ws h)))"

subsection \<open>The headline as the specification words it\<close>

text \<open>
  The specification's step 3, word by word: remove the newlines, truncate at the last
  occurrence of \<open>" - "\<close>, truncate at the first \<open>"|"\<close>, collapse runs of white space
  to single spaces and trim. These definitions are only compared with the code.
\<close>

definition occurrences :: "'a list \<Rightarrow> 'a list \<Rightarrow> nat list" where
  "occurrences sep s = filter (\<lambda>i. prefix sep (drop i s)) [0..<Suc (length s)]"

definition lastIndexOf :: "'a list \<Rightarrow> 'a list \<Rightarrow> nat option" where
  "lastIndexOf sep s = (case occurrences sep s of [] \<Rightarrow> None | k # ks \<Rightarrow> Some (last (k # ks)))"


definition truncateAtBar :: "jsstring \<Rightarrow> jsstring" where
  "truncateAtBar s = takeWhile (\<lambda>c. c \<noteq> 0x7C) s"

function collapse_ws :: "jsstring \<Rightarrow> jsstring" where
  "collapse_ws [] = []"
| "collapse_ws (c # cs) =
     (if is_space c then 0x20 # collapse_ws (dropWhile is_space cs)
      else c # collapse_ws cs)"
  by pat_completeness auto
termination
  by (relation "measure length") (auto simp: less_Suc_eq_le length_dropWhile_le)

definition tidy :: "jsstring \<Rightarrow> jsstring" where
  "tidy s = js_trim (collapse_ws (truncateAtBar s))"


subsection \<open>Timestamp\<close>

text \<open>
  A JavaScript number as the normalizer meets it: an integer (epoch milliseconds and
  seconds are far below \<open>2^53\<close>, so the floating-point arithmetic on them is exact)
  or \<open>NaN\<close>.
\<close>

datatype jsnum = Num int | NaN

fun js_minus :: "jsnum \<Rightarrow> jsnum \<Rightarrow> jsnum" where
  "js_minus (Num a) (Num b) = Num (a - b)"
| "js_minus _ _ = NaN"

text \<open>\<open>a >= b\<close> and \<open>a > 0\<close> on numbers: every comparison with \<open>NaN\<close> is false.\<close>

fun js_ge :: "jsnum \<Rightarrow> jsnum \<Rightarrow> bool" where
  "js_ge (Num a) (Num b) = (a \<ge> b)"
| "js_ge _ _ = False"

fun js_positive :: "jsnum \<Rightarrow> bool" where
  "js_positive (Num a) = (a > 0)"
| "js_positive NaN = False"

text \<open>
  \<open>published.replace(" GMT", "")\<close>, \<open>new Date(published + " UTC")\<close>,
  \<open>Math.floor(dt.getTime() / 1000)\<close>. How the runtime reads a date string is not
  part of the program: \<open>dateParse\<close> is a parameter, giving the epoch milliseconds of
  a string, or \<open>None\<close> for an invalid date, whose \<open>getTime()\<close> is \<open>NaN\<close>.
\<close>

definition unixTime_of :: "(jsstring \<Rightarrow> int option) \<Rightarrow> jsstring \<Rightarrow> jsnum" where
  "unixTime_of dateParse published =
     (case dateParse (js_replace (lit '' GMT'') [] published @ (lit '' UTC'')) of
        None \<Rightarrow> NaN
      | Some ms \<Rightarrow> Num (ms div 1000))"

subsection \<open>Entries, rows and the sort\<close>

text \<open>
  A value read from the parsed document (\<open>entry: any\<close>), as far as the normalizer
  can tell values apart: \<open>undefined\<close> or \<open>null\<close>; a string; anything else (a number,
  a boolean, an object), on which \<open>replace\<close> is not a function.
\<close>

datatype js_value = Undefined | Str jsstring | NotAString

text \<open>
  An entry of the parsed feed, with the three fields the normalizer reads:
  \<open>entry?.source?.["url"]\<close>, \<open>entry?.title\<close>, \<open>entry?.pubDate\<close>.
\<close>

record entry =
  source_url :: js_value
  title :: js_value
  pubDate :: js_value

text \<open>
  The value of \<open>data?.rss?.channel?.item\<close>: absent, an array of entries, or anything
  else, which has no \<open>map\<close>.
\<close>

datatype item_value = NoItem | Items "entry list" | NotAnArray

record FeedRow =
  unixTime :: jsnum
  newsHeadline :: jsstring
  publisher :: jsstring

text \<open>
  The body of \<open>entries.map((entry) => ...)\<close>, in the order of its statements: the
  publisher is touched first, then the title, then the date.
\<close>

definition processEntry :: "(jsstring \<Rightarrow> int option) \<Rightarrow> entry \<Rightarrow> js_error + FeedRow" where
  "processEntry dateParse e =
     (case source_url e of
        Str url \<Rightarrow>
          (case title e of
             Str t \<Rightarrow>
               (case newsHeadline_of t of
                  Inl err \<Rightarrow> Inl err
                | Inr h \<Rightarrow>
                    (case pubDate e of
                       Str d \<Rightarrow>
                         Inr \<lparr>unixTime = unixTime_of dateParse d,
                              newsHeadline = h,
                              publisher = publisher_of url\<rparr>
                     | _ \<Rightarrow> Inl TypeError))
           | _ \<Rightarrow> Inl TypeError)
      | _ \<Rightarrow> Inl TypeError)"

text \<open>\<open>entries.map\<close>: the first exception ends the whole call.\<close>

fun processEntries :: "(jsstring \<Rightarrow> int option) \<Rightarrow> entry list \<Rightarrow> js_error + FeedRow list" where
  "processEntries dateParse [] = Inr []"
| "processEntries dateParse (e # es) =
     (case processEntry dateParse e of
        Inl err \<Rightarrow> Inl err
      | Inr r \<Rightarrow>
          (case processEntries dateParse es of
             Inl err \<Rightarrow> Inl err
           | Inr rs \<Rightarrow> Inr (r # rs)))"

text \<open>The comparison function \<open>(a, b) => b.unixTime - a.unixTime\<close>.\<close>

definition compareFn :: "FeedRow \<Rightarrow> FeedRow \<Rightarrow> jsnum" where
  "compareFn a b = js_minus (unixTime b) (unixTime a)"

text \<open>
  \<open>Array.prototype.sort\<close> is stable, and puts \<open>a\<close> behind \<open>b\<close> only where the
  comparison function returns a positive number for \<open>(a, b)\<close>; a \<open>NaN\<close> result counts
  as zero. For a consistent comparison function every conforming sort returns the same
  array, the one this insertion sort computes. Where the comparison is inconsistent
  (a \<open>NaN\<close> among the keys) the language leaves the order to the implementation; the
  insertion sort is one such implementation.
\<close>

fun sort_insert :: "('a \<Rightarrow> 'a \<Rightarrow> jsnum) \<Rightarrow> 'a \<Rightarrow> 'a list \<Rightarrow> 'a list" where
  "sort_insert cmp x [] = [x]"
| "sort_insert cmp x (y # ys) =
     (if js_positive (cmp x y) then y # sort_insert cmp x ys else x # y # ys)"

definition js_sort :: "('a \<Rightarrow> 'a \<Rightarrow> jsnum) \<Rightarrow> 'a list \<Rightarrow> 'a list" where
  "js_sort cmp xs = foldr (sort_insert cmp) xs []"

text \<open>
  \<open>const entries = data?.rss?.channel?.item ?? []\<close> and \<open>entries.map(...)\<close>: for an
  absent entry list \<open>?? []\<close> supplies the empty array; on a value that is no array
  the call of \<open>map\<close> raises.
\<close>

definition mapEntries :: "(jsstring \<Rightarrow> int option) \<Rightarrow> item_value \<Rightarrow> js_error + FeedRow list" where
  "mapEntries dateParse item =
     (case item of
        NoItem \<Rightarrow> processEntries dateParse []
      | Items es \<Rightarrow> processEntries dateParse es
      | NotAnArray \<Rightarrow> Inl TypeError)"

text \<open>
  \<open>parseRSS\<close> from the parsed document to the sorted array \<open>parsed\<close>. Fetching, XML
  parsing and the final printing of the rows as text are outside the model.
\<close>

definition parseRSS :: "(jsstring \<Rightarrow> int option) \<Rightarrow> item_value \<Rightarrow> js_error + FeedRow list" where
  "parseRSS dateParse item =
     (case mapEntries dateParse item of
        Inl err \<Rightarrow> Inl err
      | Inr parsed \<Rightarrow> Inr (js_sort compareFn parsed))"

text \<open>The entries of a feed: those of its array, none otherwise.\<close>

definition entriesOf :: "item_value \<Rightarrow> entry list" where
  "entriesOf item = (case item of Items es \<Rightarrow> es | _ \<Rightarrow> [])"

text \<open>
  A table of date strings for evaluating the normalizer on concrete feeds. It agrees
  with the runtime on the two dates it lists, and on \<open>"soon UTC"\<close>, which is no date.
\<close>

definition sampleDates :: "jsstring \<Rightarrow> int option" where
  "sampleDates s =
     (if s = (lit ''Thu, 01 Jan 1970 00:00:01 UTC'') then Some 1000
      else if s = (lit ''Thu, 01 Jan 1970 00:00:02 UTC'') then Some 2000
      else None)"

definition sampleEntry :: "jsstring \<Rightarrow> jsstring \<Rightarrow> entry" where
  "sampleEntry t d =
     \<lparr>source_url = Str (lit ''https://www.example.com''), title = Str t, pubDate = Str d\<rparr>"

section \<open>The client: \<open>executeSearch\<close> of \<open>App.tsx\<close>\<close>

subsection \<open>Messages and component state\<close>

datatype message_type = Summary | Question | Answer

record message =
  msg_id :: nat
  msg_type :: message_type
  msg_text :: jsstring
  isUser :: bool
  initialQuery :: "jsstring option"

datatype SearchMode = General | Merge | Followup | Rss

text \<open>
  The state of the \<open>App\<close> component that \<open>executeSearch\<close> reads and writes: the
  \<open>useState\<close> cells and the counter \<open>nextId.current\<close>. An invocation reads the values
  of the render it was created in and queues its updates; the model applies the
  updates in program order to the state the invocation started from.
\<close>

record app_state =
  query :: jsstring
  conversation :: "message list"
  isSearching :: bool
  lastQuery :: "jsstring option"
  rootQuery :: "jsstring option"
  isNewsSession :: bool
  isResultMode :: bool
  nextId :: nat

text \<open>
  The pictographs of the message texts, as their code units: the newspaper (U+1F4F0)
  and the magnifying glass (U+1F50D) are surrogate pairs, the heavy plus sign is
  U+2795, the warning sign is U+26A0 followed by the variation selector U+FE0F.
\<close>

definition icon_news :: jsstring where
  "icon_news = [0xD83D, 0xDCF0]"

definition icon_search :: jsstring where
  "icon_search = [0xD83D, 0xDD0D]"

definition icon_plus :: jsstring where
  "icon_plus = [0x2795]"

definition icon_warning :: jsstring where
  "icon_warning = [0x26A0, 0xFE0F]"

text \<open>\<open>const hasSummary = conversation.length > 0\<close>\<close>

definition hasSummary :: "app_state \<Rightarrow> bool" where
  "hasSummary st \<longleftrightarrow> length (conversation st) > 0"

text \<open>
  The messages that \<open>summaryText\<close> looks for: \<open>m.type === "summary"\<close> and
  \<open>m.initialQuery?.startsWith(news icon)\<close>.
\<close>

definition isNewsSummary :: "message \<Rightarrow> bool" where
  "isNewsSummary m \<longleftrightarrow>
     msg_type m = Summary \<and>
     (case initialQuery m of None \<Rightarrow> False | Some q \<Rightarrow> prefix icon_news q)"

text \<open>\<open>[...conversation].reverse().find(...)?.text || ""\<close>\<close>

definition summaryText :: "app_state \<Rightarrow> jsstring" where
  "summaryText st =
     (case find isNewsSummary (rev (conversation st)) of
        None \<Rightarrow> []
      | Some m \<Rightarrow> msg_text m)"

text \<open>
  \<open>addMsg(msg)\<close> takes a partial message: the fields that \<open>msg\<close> gives override the
  defaults \<open>id: nextId.current++, isUser: false, type: "answer", text: ""\<close>; the
  counter is advanced whether or not \<open>msg\<close> brings an id of its own.
\<close>

record partial_message =
  p_id :: "nat option"
  p_type :: "message_type option"
  p_text :: "jsstring option"
  p_isUser :: "bool option"
  p_initialQuery :: "jsstring option"

definition no_fields :: partial_message where
  "no_fields = \<lparr>p_id = None, p_type = None, p_text = None, p_isUser = None, p_initialQuery = None\<rparr>"

definition addMsg :: "partial_message \<Rightarrow> app_state \<Rightarrow> app_state" where
  "addMsg msg st =
     st\<lparr>conversation := conversation st @
           [\<lparr>msg_id = (case p_id msg of None \<Rightarrow> nextId st | Some i \<Rightarrow> i),
             msg_type = (case p_type msg of None \<Rightarrow> Answer | Some t \<Rightarrow> t),
             msg_text = (case p_text msg of None \<Rightarrow> [] | Some t \<Rightarrow> t),
             isUser = (case p_isUser msg of None \<Rightarrow> False | Some b \<Rightarrow> b),
             initialQuery = p_initialQuery msg\<rparr>],
        nextId := nextId st + 1\<rparr>"

subsection \<open>External services\<close>

text \<open>
  The calls that leave the component. Each either returns a text (\<open>Inr\<close>) or throws an
  \<open>Error\<close>, of which only \<open>err.message\<close> is used (\<open>Inl\<close>). \<open>relayFetch\<close> stands for
  the \<open>fetch\<close> of \<open>/api/parse-rss\<close> with the search URL of the clean query, the test
  \<open>if (!res.ok) throw new Error(res.statusText)\<close> and \<open>res.text()\<close>.
\<close>

record services =
  relayFetch :: "jsstring \<Rightarrow> jsstring + jsstring"
  summarizeCSV :: "jsstring \<Rightarrow> jsstring + jsstring"
  generalSearch :: "jsstring \<Rightarrow> jsstring + jsstring"
  answerFromSummary :: "jsstring \<Rightarrow> jsstring \<Rightarrow> jsstring + jsstring"
  mergeSummaries :: "jsstring \<Rightarrow> jsstring \<Rightarrow> jsstring + jsstring"

datatype call =
    RelayFetch jsstring
  | SummarizeCSV jsstring
  | GeneralSearch jsstring
  | AnswerFromSummary jsstring jsstring
  | MergeSummaries jsstring jsstring

text \<open>The local function \<open>fetchRSS\<close>: its outcome and the calls it made.\<close>

definition fetchRSS :: "services \<Rightarrow> jsstring \<Rightarrow> (jsstring + jsstring) \<times> call list" where
  "fetchRSS sv clean =
     (case relayFetch sv clean of
        Inl e \<Rightarrow> (Inl e, [RelayFetch clean])
      | Inr csv \<Rightarrow> (summarizeCSV sv csv, [RelayFetch clean, SummarizeCSV csv]))"

text \<open>
  The \<open>switch (mode)\<close> inside \<open>try\<close>. In mode merge the argument \<open>await fetchRSS()\<close>
  is evaluated before \<open>mergeSummaries\<close> is called.
\<close>

definition runMode ::
  "services \<Rightarrow> SearchMode \<Rightarrow> jsstring \<Rightarrow> jsstring \<Rightarrow> (jsstring + jsstring) \<times> call list" where
  "runMode sv mode context clean =
     (case mode of
        General \<Rightarrow> (generalSearch sv clean, [GeneralSearch clean])
      | Followup \<Rightarrow> (answerFromSummary sv context clean, [AnswerFromSummary context clean])
      | Merge \<Rightarrow>
          (case fetchRSS sv clean of
             (Inl e, calls) \<Rightarrow> (Inl e, calls)
           | (Inr fresh, calls) \<Rightarrow>
               (mergeSummaries sv context fresh, calls @ [MergeSummaries context fresh]))
      | Rss \<Rightarrow> fetchRSS sv clean)"

subsection \<open>Classification\<close>

text \<open>\<open>const isGeneral = text.startsWith("~")\<close>\<close>

definition isGeneral :: "jsstring \<Rightarrow> bool" where
  "isGeneral text \<longleftrightarrow> prefix (lit ''~'') text"

text \<open>\<open>const isMerge = text.startsWith("+") && hasSummary && isNewsSession\<close>\<close>

definition isMerge :: "app_state \<Rightarrow> jsstring \<Rightarrow> bool" where
  "isMerge st text \<longleftrightarrow> prefix (lit ''+'') text \<and> hasSummary st \<and> isNewsSession st"

text \<open>\<open>const clean = (isMerge || isGeneral ? text.slice(1) : text).trim()\<close>\<close>

definition cleanQuery :: "app_state \<Rightarrow> jsstring \<Rightarrow> jsstring" where
  "cleanQuery st text = js_trim (if isMerge st text \<or> isGeneral text then drop 1 text else text)"

definition searchMode :: "app_state \<Rightarrow> jsstring \<Rightarrow> bool \<Rightarrow> SearchMode" where
  "searchMode st text forceNew =
     (if isGeneral text then General
      else if isMerge st text then Merge
      else if hasSummary st \<and> \<not> forceNew \<and> isNewsSession st then Followup
      else Rss)"

text \<open>A \<open>string | null\<close> inside a template literal: \<open>null\<close> prints as \<open>null\<close>.\<close>

definition template :: "jsstring option \<Rightarrow> jsstring" where
  "template v = (case v of None \<Rightarrow> (lit ''null'') | Some s \<Rightarrow> s)"

text \<open>\<open>const currentCleanQuery = mode === "merge" ? `${lastQuery} + ${clean}` : clean\<close>\<close>

definition currentCleanQuery :: "app_state \<Rightarrow> SearchMode \<Rightarrow> jsstring \<Rightarrow> jsstring" where
  "currentCleanQuery st mode clean =
     (if mode = Merge then template (lastQuery st) @ (lit '' + '') @ clean else clean)"

subsection \<open>The three stretches of \<open>executeSearch\<close>\<close>

text \<open>
  From \<open>setIsSearching(true)\<close> to the line before \<open>try\<close>, for an invocation that got
  past both early returns. \<open>st\<close> is the state of the render the invocation belongs to;
  mode, clean query and topic label are computed from it.
\<close>

definition beforeTry :: "jsstring \<Rightarrow> bool \<Rightarrow> app_state \<Rightarrow> app_state" where
  "beforeTry text forceNew st =
     (let clean = cleanQuery st text;
          mode = searchMode st text forceNew;
          s1 = st\<lparr>isSearching := True, query := []\<rparr>;
          s2 = s1\<lparr>isResultMode := True\<rparr>;
          s3 = (if mode = Rss then s2\<lparr>isNewsSession := True\<rparr> else s2);
          s4 = (if mode = Followup then
                  addMsg (no_fields\<lparr>p_type := Some Question,
                                     p_text := Some (icon_news @ (lit '' '') @ clean),
                                     p_isUser := Some True\<rparr>) s3
                else if mode = Merge then
                  addMsg (no_fields\<lparr>p_type := Some Question,
                                     p_text := Some (icon_plus @ (lit '' Adding '') @ [0x22] @ clean
                                                     @ [0x22] @ (lit ''...'')),
                                     p_isUser := Some True\<rparr>) s3
                else
                  (let s3' = (if mode = Rss \<and> \<not> forceNew then s3\<lparr>conversation := []\<rparr> else s3)
                   in if mode = General then
                        addMsg (no_fields\<lparr>p_type := Some Question,
                                           p_text := Some (icon_search @ (lit '' '') @ clean),
                                           p_isUser := Some True\<rparr>) s3'
                      else s3'));
          label = currentCleanQuery st mode clean
      in if mode \<noteq> Followup \<and> mode \<noteq> General then
           (let s5 = s4\<lparr>lastQuery := Some label\<rparr>
            in if mode \<noteq> Merge then s5\<lparr>rootQuery := Some clean\<rparr> else s5)
         else s4)"

text \<open>The message built after the \<open>switch\<close> from the result text.\<close>

definition newMessage :: "SearchMode \<Rightarrow> jsstring \<Rightarrow> jsstring \<Rightarrow> nat \<Rightarrow> message" where
  "newMessage mode label result resMsgId =
     \<lparr>msg_id = resMsgId,
      msg_type = (if mode = Followup then Answer else Summary),
      msg_text = result,
      isUser = False,
      initialQuery = Some ((if mode = General then icon_search else icon_news) @ (lit '' '') @ label)\<rparr>"

text \<open>The message of the \<open>catch\<close> block.\<close>

definition errorMessage :: "jsstring \<Rightarrow> nat \<Rightarrow> message" where
  "errorMessage e i =
     \<lparr>msg_id = i, msg_type = Answer, msg_text = icon_warning @ (lit '' Error: '') @ e,
      isUser = False, initialQuery = None\<rparr>"

text \<open>
  The rest of \<open>try\<close> once the service calls have an outcome, the \<open>catch\<close> block and
  the \<open>finally\<close> block. (Scrolling the new message into view is not modelled.)
\<close>

definition afterCalls ::
  "SearchMode \<Rightarrow> bool \<Rightarrow> jsstring \<Rightarrow> jsstring + jsstring \<Rightarrow> app_state \<Rightarrow> app_state" where
  "afterCalls mode forceNew label outcome s =
     (let s' =
        (case outcome of
           Inr result \<Rightarrow>
             (let m = newMessage mode label result (nextId s)
              in if forceNew \<or> (mode = Rss \<and> \<not> forceNew)
                 then s\<lparr>conversation := [m], nextId := nextId s + 1\<rparr>
                 else addMsg \<lparr>p_id = Some (msg_id m), p_type = Some (msg_type m),
                              p_text = Some (msg_text m), p_isUser = Some (isUser m),
                              p_initialQuery = initialQuery m\<rparr> s)
         | Inl e \<Rightarrow> addMsg (no_fields\<lparr>p_text := Some (icon_warning @ (lit '' Error: '') @ e)\<rparr>) s)
      in s'\<lparr>isSearching := False\<rparr>)"

subsection \<open>\<open>executeSearch\<close>\<close>

text \<open>
  The whole callback: the final state and the service calls it made, in order. The
  first early return is \<open>if (!text || isSearching) return\<close>; the second one, for an
  empty clean query, comes after \<open>setIsSearching(true)\<close> and \<open>setQuery("")\<close> and
  undoes the first of them.
\<close>

definition executeSearch ::
  "services \<Rightarrow> jsstring \<Rightarrow> bool \<Rightarrow> app_state \<Rightarrow> app_state \<times> call list" where
  "executeSearch sv text forceNew st =
     (if text = [] \<or> isSearching st then (st, [])
      else
        (let clean = cleanQuery st text
         in if clean = [] then (st\<lparr>isSearching := True, query := []\<rparr>\<lparr>isSearching := False\<rparr>, [])
            else
              (let mode = searchMode st text forceNew;
                   label = currentCleanQuery st mode clean;
                   (outcome, calls) = runMode sv mode (summaryText st) clean
               in (afterCalls mode forceNew label outcome (beforeTry text forceNew st), calls))))"

text \<open>
  The search bar's key handler:
  \<open>e.key === "Enter" && !isSearching && query.trim() && onSearchSubmit(query.trim())\<close>.
  The keyword buttons and the refresh button pass trimmed texts as well.
\<close>

definition onEnter :: "services \<Rightarrow> app_state \<Rightarrow> app_state \<times> call list" where
  "onEnter sv st =
     (if \<not> isSearching st \<and> js_trim (query st) \<noteq> []
      then executeSearch sv (js_trim (query st)) False st
      else (st, []))"

text \<open>A keyword button: \<open>onKeywordClick(k)\<close>, which is \<open>executeSearch(k)\<close>.\<close>

definition onKeywordClick :: "services \<Rightarrow> jsstring \<Rightarrow> app_state \<Rightarrow> app_state \<times> call list" where
  "onKeywordClick sv k st = executeSearch sv k False st"

text \<open>The refresh button: \<open>rootQuery && executeSearch(rootQuery, true)\<close>.\<close>

definition onRefresh :: "services \<Rightarrow> app_state \<Rightarrow> app_state \<times> call list" where
  "onRefresh sv st =
     (case rootQuery st of
        None \<Rightarrow> (st, [])
      | Some r \<Rightarrow> if r = [] then (st, []) else executeSearch sv r True st)"

text \<open>\<open>reset\<close>, bound to the back button.\<close>

definition reset :: "app_state \<Rightarrow> app_state" where
  "reset st = st\<lparr>conversation := [], lastQuery := None, rootQuery := None, query := [],
                 isNewsSession := False, isResultMode := False\<rparr>"

subsection \<open>Sample states and services for concrete evaluations\<close>

definition freshState :: app_state where
  "freshState = \<lparr>query = [], conversation = [], isSearching = False, lastQuery = None,
                  rootQuery = None, isNewsSession = False, isResultMode = False, nextId = 0\<rparr>"

text \<open>Every call answers; the answers are fixed texts.\<close>

definition okServices :: services where
  "okServices = \<lparr>relayFetch = (\<lambda>q. Inr (lit ''rows'')), summarizeCSV = (\<lambda>csv. Inr (lit ''summary'')),
                  generalSearch = (\<lambda>q. Inr (lit ''answer'')),
                  answerFromSummary = (\<lambda>ctx q. Inr (lit ''reply'')),
                  mergeSummaries = (\<lambda>old fresh. Inr (lit ''merged''))\<rparr>"

text \<open>The relay is down; everything else answers.\<close>

definition relayDown :: services where
  "relayDown = okServices\<lparr>relayFetch := (\<lambda>q. Inl (lit ''Service Unavailable''))\<rparr>"

text \<open>A session after one successful search for \<open>us elections\<close>.\<close>

definition afterFirstSearch :: app_state where
  "afterFirstSearch = fst (executeSearch okServices (lit ''us elections'') False freshState)"

text \<open>A session after one answered general query, \<open>~tell me a joke\<close>.\<close>

definition afterGeneralSearch :: app_state where
  "afterGeneralSearch = fst (executeSearch okServices (lit ''~tell me a joke'') False freshState)"

text \<open>A session whose first search failed at the relay.\<close>

definition afterFailedSearch :: app_state where
  "afterFailedSearch = fst (executeSearch relayDown (lit ''us elections'') False freshState)"

section \<open>Properties in the specification's words\<close>

text \<open>
  The publisher as the specification describes it: the host only, trimmed, without a
  leading \<open>https://\<close> or \<open>www.\<close> and without a path.
\<close>

definition hostOnly :: "jsstring \<Rightarrow> bool" where
  "hostOnly p \<longleftrightarrow>
     \<not> prefix (lit ''https://'') p \<and> \<not> prefix (lit ''www.'') p \<and> 0x2F \<notin> set p \<and> js_trim p = p"

text \<open>
  The record list is sorted non-increasing by timestamp: each record's timestamp is
  \<open>>=\<close> the timestamp of every later record.
\<close>

definition sortedByTimeDesc :: "FeedRow list \<Rightarrow> bool" where
  "sortedByTimeDesc rows \<longleftrightarrow> sorted_wrt (\<lambda>a b. js_ge (unixTime a) (unixTime b)) rows"

text \<open>
  Records with equal timestamps keep the order they have in \<open>original\<close>: for every
  timestamp, the records carrying it form the same sequence in both lists.
\<close>

definition sameOrderAmongEqualTimes :: "FeedRow list \<Rightarrow> FeedRow list \<Rightarrow> bool" where
  "sameOrderAmongEqualTimes rows original \<longleftrightarrow>
     (\<forall>k \<in> set (map unixTime original) \<union> set (map unixTime rows).
        filter (\<lambda>r. unixTime r = k) rows = filter (\<lambda>r. unixTime r = k) original)"

text \<open>The publish date of an entry is a string that the runtime can read as a date.\<close>

definition dateParses :: "(jsstring \<Rightarrow> int option) \<Rightarrow> entry \<Rightarrow> bool" where
  "dateParses dateParse e \<longleftrightarrow>
     (case pubDate e of
        Str d \<Rightarrow> dateParse (js_replace (lit '' GMT'') [] d @ (lit '' UTC'')) \<noteq> None
      | _ \<Rightarrow> False)"

text \<open>A string.\<close>

fun isString :: "js_value \<Rightarrow> bool" where
  "isString (Str _) = True"
| "isString _ = False"

text \<open>
  An entry has the three fields that the normalizer calls methods on, each of them
  a string.
\<close>

definition hasAllFields :: "entry \<Rightarrow> bool" where
  "hasAllFields e \<longleftrightarrow> isString (source_url e) \<and> isString (title e) \<and> isString (pubDate e)"

text \<open>
  Some call of the pipeline throws an error with message \<open>e\<close>, every call before it
  having returned: the general search; the follow-up answer; in the modes rss and
  merge the relay or, behind it, the summary of the rows; in mode merge, behind
  both, the merging of the summaries.
\<close>

definition pipelineFails :: "services \<Rightarrow> SearchMode \<Rightarrow> jsstring \<Rightarrow> jsstring \<Rightarrow> jsstring \<Rightarrow> bool" where
  "pipelineFails sv mode context clean e \<longleftrightarrow>
     (mode = General \<and> generalSearch sv clean = Inl e) \<or>
     (mode = Followup \<and> answerFromSummary sv context clean = Inl e) \<or>
     ((mode = Rss \<or> mode = Merge) \<and> relayFetch sv clean = Inl e) \<or>
     ((mode = Rss \<or> mode = Merge) \<and>
        (case relayFetch sv clean of Inl _ \<Rightarrow> False | Inr csv \<Rightarrow> summarizeCSV sv csv = Inl e)) \<or>
     (mode = Merge \<and>
        (case relayFetch sv clean of
           Inl _ \<Rightarrow> False
         | Inr csv \<Rightarrow>
             (case summarizeCSV sv csv of
                Inl _ \<Rightarrow> False
              | Inr fresh \<Rightarrow> mergeSummaries sv context fresh = Inl e)))"

text \<open>
  An invocation that gets past both early returns of \<open>executeSearch\<close>: the text is
  not empty, no search is running, and the clean query is not empty.
\<close>

definition accepted :: "app_state \<Rightarrow> jsstring \<Rightarrow> bool" where
  "accepted st text \<longleftrightarrow> text \<noteq> [] \<and> \<not> isSearching st \<and> cleanQuery st text \<noteq> []"

text \<open>
  The conversation holds a summary-bearing message, in the widest sense of the
  words: a message of kind summary, whatever its label.
\<close>

definition summaryExists :: "app_state \<Rightarrow> bool" where
  "summaryExists st \<longleftrightarrow> filter (\<lambda>m. msg_type m = Summary) (conversation st) \<noteq> []"

section \<open>Facts about the string primitives\<close>

lemma lit_Nil: "lit [] = []"
  by (simp add: lit_def)

lemma lit_Cons: "lit (c # cs) = of_char c # lit cs"
  by (simp add: lit_def)

lemmas lit_simps = lit_Nil lit_Cons

lemma length_lit [simp]: "length (lit s) = length s"
  by (simp add: lit_def)

lemma lit_eq_Nil_iff [simp]: "lit s = [] \<longleftrightarrow> s = []"
  by (simp add: lit_def)

lemma js_replace_at_start: "js_replace pat rep (pat @ r) = rep @ r"
proof (cases "pat @ r")
  case Nil
  then show ?thesis by simp
next
  case (Cons a l)
  have "prefix pat (a # l)" unfolding Cons[symmetric] by simp
  then have "js_replace pat rep (a # l) = rep @ drop (length pat) (a # l)" by simp
  then show ?thesis unfolding Cons[symmetric] by simp
qed

lemma js_replace_absent: "\<not> js_includes pat s \<Longrightarrow> js_replace pat rep s = s"
  by (induction s) auto

lemma not_includes_prefix: "\<not> js_includes pat s \<Longrightarrow> pat \<noteq> [] \<Longrightarrow> \<not> prefix pat s"
  by (cases s) auto

text \<open>
  The publisher of a source URL that is \<open>https://www.\<close>, \<open>https://\<close> or
  \<open>www.\<close> followed by a rest that contains neither marker, or such a rest alone.
\<close>

lemma publisher_of_strips_markers:
  assumes "\<not> js_includes (lit ''https://'') r" and "\<not> js_includes (lit ''www.'') r"
  shows "\<forall>url \<in> {(lit ''https://www.'') @ r, (lit ''https://'') @ r, (lit ''www.'') @ r, r}.
           publisher_of url = r \<and> \<not> prefix (lit ''https://'') (publisher_of url)
           \<and> \<not> prefix (lit ''www.'') (publisher_of url)"
proof -
  have a: "publisher_of ((lit ''https://www.'') @ r) = r"
    using js_replace_at_start[of "(lit ''https://'')" "[]" "(lit ''www.'') @ r"]
          js_replace_at_start[of "(lit ''www.'')" "[]" r]
    by (simp add: publisher_of_def lit_simps)
  have b: "publisher_of ((lit ''https://'') @ r) = r"
    using js_replace_at_start[of "(lit ''https://'')" "[]" r] assms(2)
    by (simp add: publisher_of_def js_replace_absent)
  have "\<not> js_includes (lit ''https://'') ((lit ''www.'') @ r)"
    using assms(1) by (simp add: lit_simps)
  then have "js_replace (lit ''https://'') [] ((lit ''www.'') @ r) = (lit ''www.'') @ r"
    by (rule js_replace_absent)
  then have c: "publisher_of ((lit ''www.'') @ r) = r"
    using js_replace_at_start[of "(lit ''www.'')" "[]" r]
    by (simp add: publisher_of_def)
  have d: "publisher_of r = r"
    using assms by (simp add: publisher_of_def js_replace_absent)
  have e: "\<not> prefix (lit ''https://'') r" "\<not> prefix (lit ''www.'') r"
    using assms by (auto dest: not_includes_prefix)
  show ?thesis using a b c d e by simp
qed

section \<open>Facts about splitting, joining and trimming\<close>


lemma js_split_from_absent: "\<not> js_includes sep s \<Longrightarrow> js_split_from sep acc s = [acc @ s]"
  by (induction s arbitrary: acc) auto

lemma js_split_from_char_head:
  "\<exists>rest. js_split_from [c] acc s = (acc @ takeWhile (\<lambda>x. x \<noteq> c) s) # rest"
proof (induction s arbitrary: acc)
  case Nil
  then show ?case by simp
next
  case (Cons a s)
  show ?case
  proof (cases "a = c")
    case True
    then show ?thesis by simp
  next
    case False
    obtain rest where "js_split_from [c] (acc @ [a]) s = ((acc @ [a]) @ takeWhile (\<lambda>x. x \<noteq> c) s) # rest"
      using Cons[of "acc @ [a]"] by blast
    then show ?thesis using False by simp
  qed
qed

lemma cutAtBar_eq: "cutAtBar s = Inr (js_trim (truncateAtBar s))"
proof -
  obtain rest where "js_split_from [0x7C] [] s = ([] @ takeWhile (\<lambda>x. x \<noteq> 0x7C) s) # rest"
    using js_split_from_char_head[of "0x7C" "[]" s] by blast
  then show ?thesis by (simp add: cutAtBar_def js_split_def truncateAtBar_def lit_simps)
qed

lemma js_split_ws_from_nonempty: "js_split_ws_from acc s \<noteq> []"
  by (induction acc s rule: js_split_ws_from.induct) auto

lemma js_join_Cons: "ps \<noteq> [] \<Longrightarrow> js_join sep (p # ps) = p @ sep @ js_join sep ps"
  by (cases ps) auto

lemma js_join_space_split_ws_from:
  "js_join (lit '' '') (js_split_ws_from acc s) = acc @ collapse_ws s"
proof (induction acc s rule: js_split_ws_from.induct)
  case (1 acc)
  then show ?case by simp
next
  case (2 acc c cs)
  show ?case
  proof (cases "is_space c")
    case True
    show ?thesis using True 2(1)[OF True]
      by (simp add: js_join_Cons js_split_ws_from_nonempty lit_simps)
  next
    case False
    then show ?thesis using 2(2)[OF False] by simp
  qed
qed

lemma js_join_split_ws: "js_join (lit '' '') (js_split_ws s) = collapse_ws s"
  using js_join_space_split_ws_from[of "[]" s] by (simp add: js_split_ws_def)

lemma is_space_blank [simp]: "is_space (0x20)"
  by (simp add: is_space_def)

lemma rtrim_Cons:
  "rev (dropWhile is_space (rev t @ [c])) =
     (if is_space c \<and> (\<forall>x\<in>set t. is_space x) then [] else c # rev (dropWhile is_space (rev t)))"
  by (auto simp: dropWhile_append)

lemma dropWhile_eq_Nil_iff: "dropWhile P xs = [] \<longleftrightarrow> (\<forall>x\<in>set xs. P x)"
  by (induction xs) auto

lemma rtrim_dropWhile:
  "rev (dropWhile is_space (rev (dropWhile is_space s))) =
   dropWhile is_space (rev (dropWhile is_space (rev s)))"
proof (induction s)
  case Nil
  then show ?case by simp
next
  case (Cons c s)
  show ?case
  proof (cases "is_space c")
    case True
    show ?thesis
    proof (cases "\<forall>x\<in>set s. is_space x")
      case True
      then have e: "dropWhile is_space s = []" by (simp add: dropWhile_eq_Nil_iff)
      show ?thesis using \<open>is_space c\<close> True by (simp add: rtrim_Cons e)
    next
      case False
      then show ?thesis using \<open>is_space c\<close> Cons by (auto simp: rtrim_Cons)
    qed
  next
    case False
    then show ?thesis by (simp add: rtrim_Cons)
  qed
qed

lemma collapse_ws_all_space: "(\<forall>x\<in>set (collapse_ws s). is_space x) \<longleftrightarrow> (\<forall>x\<in>set s. is_space x)"
proof (induction s rule: collapse_ws.induct)
  case 1
  then show ?case by simp
next
  case (2 c cs)
  show ?case
  proof (cases "is_space c")
    case True
    have "(\<forall>x\<in>set (dropWhile is_space cs). is_space x) \<longleftrightarrow> (\<forall>x\<in>set cs. is_space x)"
      by (metis dropWhile_eq_Nil_iff dropWhile_idem empty_iff list.set(1) dropWhile_eq_Nil_conv)
    then show ?thesis using True 2(1)[OF True] by simp
  next
    case False
    then show ?thesis using 2(2)[OF False] by simp
  qed
qed

lemma dropWhile_collapse_ws:
  "dropWhile is_space (collapse_ws s) = collapse_ws (dropWhile is_space s)"
proof (cases s)
  case Nil
  then show ?thesis by simp
next
  case (Cons c cs)
  show ?thesis
  proof (cases "is_space c")
    case True
    have "dropWhile is_space (collapse_ws t) = collapse_ws t"
      if "t = dropWhile is_space cs" for t
    proof (cases t)
      case Nil
      then show ?thesis by simp
    next
      case (Cons d ds)
      then have "\<not> is_space d" using that by (metis hd_dropWhile list.distinct(1) list.sel(1))
      then show ?thesis using Cons by simp
    qed
    then show ?thesis using True Cons by simp
  next
    case False
    then show ?thesis using Cons by simp
  qed
qed

lemma rtrim_collapse_ws:
  "rev (dropWhile is_space (rev (collapse_ws s))) = collapse_ws (rev (dropWhile is_space (rev s)))"
proof (induction s rule: collapse_ws.induct)
  case 1
  then show ?case by simp
next
  case (2 c cs)
  show ?case
  proof (cases "is_space c")
    case True
    note IH = 2(1)[OF True]
    show ?thesis
    proof (cases "\<forall>x\<in>set cs. is_space x")
      case all: True
      then have e: "dropWhile is_space cs = []" by (simp add: dropWhile_eq_Nil_iff)
      show ?thesis using True all by (simp add: rtrim_Cons e)
    next
      case notall: False
      then have "\<not> (\<forall>x\<in>set (dropWhile is_space cs). is_space x)"
        by (metis dropWhile_eq_Nil_iff dropWhile_idem empty_iff list.set(1))
      then have "\<not> (\<forall>x\<in>set (collapse_ws (dropWhile is_space cs)). is_space x)"
        by (simp add: collapse_ws_all_space)
      then have "rev (dropWhile is_space (rev (collapse_ws (c # cs)))) =
                 0x20 # collapse_ws (rev (dropWhile is_space (rev (dropWhile is_space cs))))"
        using True IH by (simp add: rtrim_Cons)
      moreover have "collapse_ws (rev (dropWhile is_space (rev (c # cs)))) =
                 0x20 # collapse_ws (dropWhile is_space (rev (dropWhile is_space (rev cs))))"
        using True notall by (simp add: rtrim_Cons)
      ultimately show ?thesis by (simp add: rtrim_dropWhile)
    qed
  next
    case False
    then show ?thesis using 2(2)[OF False] by (simp add: rtrim_Cons)
  qed
qed

lemma js_trim_collapse_ws: "collapse_ws (js_trim s) = js_trim (collapse_ws s)"
  by (simp add: js_trim_def rtrim_collapse_ws dropWhile_collapse_ws)

lemma js_includes_iff: "js_includes sep s \<longleftrightarrow> (\<exists>j. j \<le> length s \<and> prefix sep (drop j s))"
proof (induction s)
  case Nil
  then show ?case by simp
next
  case (Cons c cs)
  show ?case
  proof
    assume "js_includes sep (c # cs)"
    then consider "prefix sep (c # cs)" | "js_includes sep cs" by auto
    then show "\<exists>j. j \<le> length (c # cs) \<and> prefix sep (drop j (c # cs))"
    proof cases
      case 1
      then have "0 \<le> length (c # cs) \<and> prefix sep (drop 0 (c # cs))" by simp
      then show ?thesis by blast
    next
      case 2
      then obtain j where "j \<le> length cs" "prefix sep (drop j cs)" using Cons by blast
      then have "Suc j \<le> length (c # cs) \<and> prefix sep (drop (Suc j) (c # cs))" by simp
      then show ?thesis by blast
    qed
  next
    assume "\<exists>j. j \<le> length (c # cs) \<and> prefix sep (drop j (c # cs))"
    then obtain j where j: "j \<le> length (c # cs)" "prefix sep (drop j (c # cs))" by blast
    show "js_includes sep (c # cs)"
    proof (cases j)
      case 0
      then show ?thesis using j by simp
    next
      case (Suc k)
      then have "k \<le> length cs \<and> prefix sep (drop k cs)" using j by simp
      then show ?thesis using Cons by auto
    qed
  qed
qed



lemma in_occurrences: "j \<in> set (occurrences sep s) \<longleftrightarrow> j \<le> length s \<and> prefix sep (drop j s)"
  by (auto simp: occurrences_def simp del: upt_Suc)




lemma lastIndexOf_None: "lastIndexOf sep s = None \<Longrightarrow> \<not> js_includes sep s"
proof
  assume n: "lastIndexOf sep s = None" and "js_includes sep s"
  then obtain j where "j \<le> length s" "prefix sep (drop j s)" by (auto simp: js_includes_iff)
  then have "j \<in> set (occurrences sep s)" unfolding in_occurrences by simp
  then show False using n by (auto simp: lastIndexOf_def split: list.splits)
qed






lemma newsHeadline_of_eq:
  "newsHeadline_of t = Inr (tidy (dropLastSegment (removeNewlines t)))"
  by (simp add: newsHeadline_of_def cutAtBar_eq js_join_split_ws js_trim_collapse_ws tidy_def)

lemma newsHeadline_of_no_separator:
  assumes "\<not> js_includes (lit '' - '') (removeNewlines t)"
  shows "newsHeadline_of t = Inr []"
proof -
  have "js_split (lit '' - '') (removeNewlines t) = [removeNewlines t]"
    using assms by (simp add: js_split_def js_split_from_absent)
  then show ?thesis
    by (simp add: newsHeadline_of_eq dropLastSegment_def tidy_def truncateAtBar_def js_trim_def)
qed


section \<open>The headline of a record\<close>




section \<open>Facts about the sort\<close>

lemma mset_sort_insert: "mset (sort_insert cmp x ys) = add_mset x (mset ys)"
  by (induction ys) auto

lemma set_sort_insert: "set (sort_insert cmp x ys) = insert x (set ys)"
  by (induction ys) auto

lemma mset_js_sort: "mset (js_sort cmp xs) = mset xs"
  by (induction xs) (auto simp: js_sort_def mset_sort_insert)

lemma set_js_sort: "set (js_sort cmp xs) = set xs"
  by (induction xs) (auto simp: js_sort_def set_sort_insert)

lemma js_sort_Cons: "js_sort cmp (x # xs) = sort_insert cmp x (js_sort cmp xs)"
  by (simp add: js_sort_def)

lemma filter_sort_insert:
  assumes "\<And>y. P x \<Longrightarrow> js_positive (cmp x y) \<Longrightarrow> \<not> P y"
  shows "filter P (sort_insert cmp x ys) = filter P (x # ys)"
  using assms by (induction ys) auto

lemma compareFn_positive_differs:
  "js_positive (compareFn x y) \<Longrightarrow> unixTime y \<noteq> unixTime x"
  by (cases "unixTime x"; cases "unixTime y") (auto simp: compareFn_def)

lemma filter_time_js_sort:
  "filter (\<lambda>r. unixTime r = k) (js_sort compareFn rs) = filter (\<lambda>r. unixTime r = k) rs"
proof (induction rs)
  case Nil
  then show ?case by (simp add: js_sort_def)
next
  case (Cons x rs)
  have "filter (\<lambda>r. unixTime r = k) (sort_insert compareFn x (js_sort compareFn rs)) =
        filter (\<lambda>r. unixTime r = k) (x # js_sort compareFn rs)"
    by (rule filter_sort_insert) (use compareFn_positive_differs in auto)
  then show ?case using Cons by (simp add: js_sort_Cons)
qed

lemma sorted_sort_insert:
  assumes "sortedByTimeDesc ys" and "unixTime x \<noteq> NaN" and "\<forall>y\<in>set ys. unixTime y \<noteq> NaN"
  shows "sortedByTimeDesc (sort_insert compareFn x ys)"
  using assms
proof (induction ys)
  case Nil
  then show ?case by (simp add: sortedByTimeDesc_def)
next
  case (Cons y ys)
  obtain a where a: "unixTime x = Num a" using Cons.prems(2) by (cases "unixTime x") auto
  obtain b where b: "unixTime y = Num b" using Cons.prems(3) by (cases "unixTime y") auto
  have tail: "sortedByTimeDesc ys" and below: "\<forall>z\<in>set ys. js_ge (unixTime y) (unixTime z)"
    using Cons.prems(1) by (auto simp: sortedByTimeDesc_def)
  show ?case
  proof (cases "js_positive (compareFn x y)")
    case True
    then have "a < b" using a b by (simp add: compareFn_def)
    then have "js_ge (unixTime y) (unixTime x)" using a b by simp
    moreover have "sortedByTimeDesc (sort_insert compareFn x ys)"
      using Cons.IH tail Cons.prems(2,3) by simp
    ultimately show ?thesis using True below
      by (auto simp: sortedByTimeDesc_def set_sort_insert)
  next
    case False
    then have ba: "b \<le> a" using a b by (simp add: compareFn_def)
    have "js_ge (unixTime x) (unixTime z)" if "z \<in> set ys" for z
    proof -
      have "unixTime z \<noteq> NaN" using Cons.prems(3) that by simp
      then obtain c where c: "unixTime z = Num c" by (cases "unixTime z") auto
      have "c \<le> b" using below that b c by auto
      then show ?thesis using ba a c by simp
    qed
    moreover have "js_ge (unixTime x) (unixTime y)" using ba a b by simp
    ultimately show ?thesis using False Cons.prems(1) by (auto simp: sortedByTimeDesc_def)
  qed
qed

lemma sorted_js_sort:
  "\<forall>r\<in>set rs. unixTime r \<noteq> NaN \<Longrightarrow> sortedByTimeDesc (js_sort compareFn rs)"
proof (induction rs)
  case Nil
  then show ?case by (simp add: js_sort_def sortedByTimeDesc_def)
next
  case (Cons x rs)
  then show ?case by (simp add: js_sort_Cons sorted_sort_insert set_js_sort)
qed

section \<open>Facts about the entries\<close>

lemma processEntry_Inr_iff:
  "processEntry dp e = Inr r \<longleftrightarrow>
     (\<exists>url t d h. source_url e = Str url \<and> title e = Str t \<and> pubDate e = Str d \<and>
        newsHeadline_of t = Inr h \<and>
        r = \<lparr>unixTime = unixTime_of dp d, newsHeadline = h, publisher = publisher_of url\<rparr>)"
  by (auto simp: processEntry_def split: js_value.splits sum.splits)

lemma isString_iff: "isString v \<longleftrightarrow> (\<exists>s. v = Str s)"
  by (cases v) simp_all

lemma processEntry_succeeds_iff: "(\<exists>r. processEntry dp e = Inr r) \<longleftrightarrow> hasAllFields e"
  by (auto simp: processEntry_Inr_iff hasAllFields_def isString_iff newsHeadline_of_eq)

lemma processEntry_fails_iff: "processEntry dp e = Inl TypeError \<longleftrightarrow> \<not> hasAllFields e"
proof -
  have "processEntry dp e = Inl TypeError \<longleftrightarrow> \<not> (\<exists>r. processEntry dp e = Inr r)"
    by (cases "processEntry dp e") (auto intro: js_error.exhaust)
  then show ?thesis by (simp add: processEntry_succeeds_iff)
qed

lemma processEntries_Inr_iff:
  "processEntries dp es = Inr rs \<longleftrightarrow> map (processEntry dp) es = map Inr rs"
proof (induction es arbitrary: rs)
  case Nil
  then show ?case by auto
next
  case (Cons e es)
  show ?case
  proof (cases "processEntry dp e")
    case (Inl err)
    then show ?thesis by (cases rs) auto
  next
    case (Inr r)
    show ?thesis
    proof (cases "processEntries dp es")
      case (Inl err)
      then have "map (processEntry dp) es \<noteq> map Inr rs'" for rs'
        using Cons[of rs'] by simp
      then show ?thesis using Inl Inr by (cases rs) auto
    next
      case r2: (Inr rs2)
      then have "map (processEntry dp) es = map Inr rs2" using Cons[of rs2] by simp
      then show ?thesis using r2 Inr by (cases rs) (auto simp: inj_map_eq_map[OF inj_Inr])
    qed
  qed
qed

lemma processEntries_fails_iff:
  "processEntries dp es = Inl TypeError \<longleftrightarrow> (\<exists>e\<in>set es. \<not> hasAllFields e)"
proof (induction es)
  case Nil
  then show ?case by simp
next
  case (Cons e es)
  show ?case
  proof (cases "processEntry dp e")
    case (Inl err)
    then have "\<not> hasAllFields e" using processEntry_succeeds_iff[of dp e] by auto
    then show ?thesis using Inl by (cases err) simp
  next
    case (Inr r)
    then have "hasAllFields e" using processEntry_succeeds_iff[of dp e] by auto
    then show ?thesis using Inr Cons by (auto split: sum.splits)
  qed
qed

lemma processEntries_row:
  assumes "processEntries dp es = Inr rs" and "r \<in> set rs"
  shows "\<exists>e\<in>set es. processEntry dp e = Inr r"
proof -
  have "map (processEntry dp) es = map Inr rs"
    using assms(1) by (simp add: processEntries_Inr_iff)
  moreover have "Inr r \<in> set (map Inr rs)" using assms(2) by simp
  ultimately have "Inr r \<in> set (map (processEntry dp) es)" by simp
  then show ?thesis by auto
qed

lemma processEntries_entry:
  assumes "processEntries dp es = Inr rs" and "e \<in> set es"
  shows "\<exists>r\<in>set rs. processEntry dp e = Inr r"
proof -
  have "map (processEntry dp) es = map Inr rs"
    using assms(1) by (simp add: processEntries_Inr_iff)
  moreover have "processEntry dp e \<in> set (map (processEntry dp) es)" using assms(2) by simp
  ultimately have "processEntry dp e \<in> set (map Inr rs)" by simp
  then show ?thesis by auto
qed

lemma processEntries_length: "processEntries dp es = Inr rs \<Longrightarrow> length rs = length es"
  by (metis processEntries_Inr_iff length_map)

lemma processEntry_time:
  "processEntry dp e = Inr r \<Longrightarrow> unixTime r \<noteq> NaN \<longleftrightarrow> dateParses dp e"
  by (auto simp: processEntry_Inr_iff dateParses_def unixTime_of_def split: option.splits)

lemma parseRSS_eq:
  "item \<noteq> NotAnArray \<Longrightarrow>
   parseRSS dp item =
     (case processEntries dp (entriesOf item) of
        Inl err \<Rightarrow> Inl err | Inr parsed \<Rightarrow> Inr (js_sort compareFn parsed))"
  by (cases item) (simp_all add: parseRSS_def mapEntries_def entriesOf_def)

lemma parseRSS_NotAnArray: "parseRSS dp NotAnArray = Inl TypeError"
  by (simp add: parseRSS_def mapEntries_def)

lemma parseRSS_Inr:
  assumes "parseRSS dp item = Inr rows"
  obtains rs where "processEntries dp (entriesOf item) = Inr rs" and "rows = js_sort compareFn rs"
proof -
  have "item \<noteq> NotAnArray" using assms by (auto simp: parseRSS_NotAnArray)
  then show ?thesis using assms that by (auto simp: parseRSS_eq split: sum.splits)
qed


lemmas normalizer_defs =
  lit_simps parseRSS_def mapEntries_def entriesOf_def processEntry_def sampleEntry_def sampleDates_def unixTime_of_def publisher_of_def
  newsHeadline_of_def cutAtBar_def dropLastSegment_def removeNewlines_def js_split_def
  js_split_ws_def js_trim_def is_space_def js_sort_def compareFn_def


section \<open>Failure of the normalizer\<close>

text \<open>
  Claim C2, as the code has it. An absent or empty entry list gives the empty
  result. The normalizer fails exactly when the entry list is present without being
  an array, or some entry's source URL, title or publish date is absent or is not a
  string: the failure is the runtime's \<open>TypeError\<close>, which names no entry, and no
  rows are returned with it. A date that the runtime cannot read is no failure: where
  every entry has its three fields as strings there is one row per entry, and an
  entry with such a date has a row whose timestamp is \<open>NaN\<close>.
\<close>

theorem parseRSS_fails_iff_field_missing:
  "parseRSS dp NoItem = Inr [] \<and> parseRSS dp (Items []) = Inr [] \<and>
   parseRSS dp NotAnArray = Inl TypeError \<and>
   (parseRSS dp (Items es) = Inl TypeError \<longleftrightarrow> (\<exists>e\<in>set es. \<not> hasAllFields e)) \<and>
   ((\<forall>e\<in>set es. hasAllFields e) \<longrightarrow>
      (\<exists>rows. parseRSS dp (Items es) = Inr rows \<and> length rows = length es \<and>
         (\<forall>e\<in>set es. \<not> dateParses dp e \<longrightarrow> (\<exists>r\<in>set rows. unixTime r = NaN))))"
proof -
  have eq: "parseRSS dp (Items es) =
     (case processEntries dp es of
        Inl err \<Rightarrow> Inl err | Inr parsed \<Rightarrow> Inr (js_sort compareFn parsed))"
    by (simp add: parseRSS_def mapEntries_def)
  have a: "parseRSS dp NoItem = Inr []" "parseRSS dp (Items []) = Inr []"
    "parseRSS dp NotAnArray = Inl TypeError"
    by (simp_all add: parseRSS_def mapEntries_def js_sort_def)
  have b: "parseRSS dp (Items es) = Inl TypeError \<longleftrightarrow> (\<exists>e\<in>set es. \<not> hasAllFields e)"
    using processEntries_fails_iff[of dp es]
    by (cases "processEntries dp es") (auto simp: eq)
  have c: "\<exists>rows. parseRSS dp (Items es) = Inr rows \<and> length rows = length es \<and>
         (\<forall>e\<in>set es. \<not> dateParses dp e \<longrightarrow> (\<exists>r\<in>set rows. unixTime r = NaN))"
    if ok: "\<forall>e\<in>set es. hasAllFields e"
  proof -
    have "processEntries dp es \<noteq> Inl TypeError" using ok by (simp add: processEntries_fails_iff)
    then obtain rs where rs: "processEntries dp es = Inr rs"
      by (cases "processEntries dp es") (auto intro: js_error.exhaust)
    have p: "parseRSS dp (Items es) = Inr (js_sort compareFn rs)" using rs by (simp add: eq)
    have "length rs = length es" using rs by (rule processEntries_length)
    then have len: "length (js_sort compareFn rs) = length es"
      by (metis mset_js_sort size_mset)
    have "\<exists>r\<in>set (js_sort compareFn rs). unixTime r = NaN"
      if e: "e \<in> set es" "\<not> dateParses dp e" for e
    proof -
      obtain r where "r \<in> set rs" "processEntry dp e = Inr r"
        using processEntries_entry[OF rs e(1)] by blast
      then show ?thesis using e(2) processEntry_time[of dp e r] by (auto simp: set_js_sort)
    qed
    then show ?thesis using p len by blast
  qed
  show ?thesis using a b c by blast
qed


theorem parseRSS_fails_iff_field_missing_witness:
  "hasAllFields (sampleEntry (lit ''Storm - Daily'') (lit ''soon'')) \<and>
   parseRSS sampleDates (Items [sampleEntry (lit ''Storm - Daily'') (lit ''soon'')]) \<noteq> Inl TypeError"
  using parseRSS_fails_iff_field_missing[of sampleDates "[sampleEntry (lit ''Storm - Daily'') (lit ''soon'')]"]
  by (simp add: lit_simps hasAllFields_def sampleEntry_def)


text \<open>
  Claim C2 as the specification states it fails: an unreadable date does not make
  the normalizer fail; an entry without a title does, and so does an entry whose
  title is no string.
\<close>

theorem unparsable_date_counterexample:
  "\<not> dateParses sampleDates (sampleEntry (lit ''Storm - Daily'') (lit ''soon'')) \<and>
   parseRSS sampleDates (Items [sampleEntry (lit ''Storm - Daily'') (lit ''soon'')]) =
     Inr [\<lparr>unixTime = NaN, newsHeadline = (lit ''Storm''), publisher = (lit ''example.com'')\<rparr>] \<and>
   parseRSS sampleDates
     (Items [\<lparr>source_url = Str (lit ''https://www.example.com''), title = Undefined,
             pubDate = Str (lit ''Thu, 01 Jan 1970 00:00:01 GMT'')\<rparr>]) = Inl TypeError \<and>
   parseRSS sampleDates
     (Items [\<lparr>source_url = Str (lit ''https://www.example.com''), title = NotAString,
             pubDate = Str (lit ''Thu, 01 Jan 1970 00:00:01 GMT'')\<rparr>]) = Inl TypeError"
  by (simp add: lit_simps normalizer_defs dateParses_def)


section \<open>Order of the records\<close>

text \<open>
  Claim C3, as the code has it: for every feed in which each entry's publish date
  is present and readable, the records returned are sorted non-increasing by
  timestamp, they are the records of the entries, and records with equal timestamps
  stand in the order of their entries.
\<close>

theorem parseRSS_sorted_stable:
  assumes "parseRSS dp item = Inr rows"
    and "\<forall>e\<in>set (entriesOf item). dateParses dp e"
  shows "sortedByTimeDesc rows \<and>
         (\<exists>rs. processEntries dp (entriesOf item) = Inr rs \<and>
               mset rows = mset rs \<and> sameOrderAmongEqualTimes rows rs)"
proof -
  let ?es = "entriesOf item"
  obtain rs where rs: "processEntries dp ?es = Inr rs" and rows: "rows = js_sort compareFn rs"
    using assms(1) by (rule parseRSS_Inr)
  have "unixTime r \<noteq> NaN" if r: "r \<in> set rs" for r
  proof -
    obtain e where "e \<in> set ?es" "processEntry dp e = Inr r"
      using processEntries_row[OF rs r] by blast
    then show ?thesis using assms(2) processEntry_time[of dp e r] by blast
  qed
  then have "sortedByTimeDesc rows" unfolding rows by (intro sorted_js_sort) blast
  moreover have "mset rows = mset rs" unfolding rows by (rule mset_js_sort)
  moreover have "sameOrderAmongEqualTimes rows rs"
    unfolding rows sameOrderAmongEqualTimes_def by (simp add: filter_time_js_sort)
  ultimately show ?thesis using rs by blast
qed

theorem parseRSS_sorted_stable_witness:
  "parseRSS sampleDates
     (Items [sampleEntry (lit ''a - x'') (lit ''Thu, 01 Jan 1970 00:00:01 GMT''),
            sampleEntry (lit ''b - x'') (lit ''Thu, 01 Jan 1970 00:00:02 GMT''),
            sampleEntry (lit ''c - x'') (lit ''Thu, 01 Jan 1970 00:00:01 GMT'')]) =
     Inr [\<lparr>unixTime = Num 2, newsHeadline = (lit ''b''), publisher = (lit ''example.com'')\<rparr>,
          \<lparr>unixTime = Num 1, newsHeadline = (lit ''a''), publisher = (lit ''example.com'')\<rparr>,
          \<lparr>unixTime = Num 1, newsHeadline = (lit ''c''), publisher = (lit ''example.com'')\<rparr>] \<and>
   dateParses sampleDates (sampleEntry (lit ''a - x'') (lit ''Thu, 01 Jan 1970 00:00:01 GMT'')) \<and>
   dateParses sampleDates (sampleEntry (lit ''b - x'') (lit ''Thu, 01 Jan 1970 00:00:02 GMT'')) \<and>
   dateParses sampleDates (sampleEntry (lit ''c - x'') (lit ''Thu, 01 Jan 1970 00:00:01 GMT'')) \<and>
   sortedByTimeDesc
     [\<lparr>unixTime = Num 2, newsHeadline = (lit ''b''), publisher = (lit ''example.com'')\<rparr>,
      \<lparr>unixTime = Num 1, newsHeadline = (lit ''a''), publisher = (lit ''example.com'')\<rparr>,
      \<lparr>unixTime = Num 1, newsHeadline = (lit ''c''), publisher = (lit ''example.com'')\<rparr>]"
proof -
  let ?item = "Items [sampleEntry (lit ''a - x'') (lit ''Thu, 01 Jan 1970 00:00:01 GMT''),
            sampleEntry (lit ''b - x'') (lit ''Thu, 01 Jan 1970 00:00:02 GMT''),
            sampleEntry (lit ''c - x'') (lit ''Thu, 01 Jan 1970 00:00:01 GMT'')]"
  let ?rows = "[\<lparr>unixTime = Num 2, newsHeadline = (lit ''b''), publisher = (lit ''example.com'')\<rparr>,
          \<lparr>unixTime = Num 1, newsHeadline = (lit ''a''), publisher = (lit ''example.com'')\<rparr>,
          \<lparr>unixTime = Num 1, newsHeadline = (lit ''c''), publisher = (lit ''example.com'')\<rparr>]"
  have a: "parseRSS sampleDates ?item = Inr ?rows"
    by (simp add: lit_simps normalizer_defs)
  have b: "dateParses sampleDates (sampleEntry (lit ''a - x'') (lit ''Thu, 01 Jan 1970 00:00:01 GMT''))"
          "dateParses sampleDates (sampleEntry (lit ''b - x'') (lit ''Thu, 01 Jan 1970 00:00:02 GMT''))"
          "dateParses sampleDates (sampleEntry (lit ''c - x'') (lit ''Thu, 01 Jan 1970 00:00:01 GMT''))"
    by (simp_all add: lit_simps dateParses_def sampleEntry_def sampleDates_def)
  have "\<forall>e\<in>set (entriesOf ?item). dateParses sampleDates e"
    using b by (simp add: lit_simps entriesOf_def)
  from parseRSS_sorted_stable[OF a this] have "sortedByTimeDesc ?rows" by blast
  then show ?thesis using a b by blast
qed


text \<open>
  Claim C3 as the specification states it fails for a feed with an unreadable date:
  the comparison with \<open>NaN\<close> moves nothing, and a record of time 1 stays before
  a record of time 2.
\<close>

theorem unsorted_with_invalid_date_counterexample:
  "parseRSS sampleDates
     (Items [sampleEntry (lit ''a - x'') (lit ''Thu, 01 Jan 1970 00:00:01 GMT''),
            sampleEntry (lit ''b - x'') (lit ''soon''),
            sampleEntry (lit ''c - x'') (lit ''Thu, 01 Jan 1970 00:00:02 GMT'')]) =
     Inr [\<lparr>unixTime = Num 1, newsHeadline = (lit ''a''), publisher = (lit ''example.com'')\<rparr>,
          \<lparr>unixTime = NaN, newsHeadline = (lit ''b''), publisher = (lit ''example.com'')\<rparr>,
          \<lparr>unixTime = Num 2, newsHeadline = (lit ''c''), publisher = (lit ''example.com'')\<rparr>] \<and>
   \<not> sortedByTimeDesc
     [\<lparr>unixTime = Num 1, newsHeadline = (lit ''a''), publisher = (lit ''example.com'')\<rparr>,
      \<lparr>unixTime = NaN, newsHeadline = (lit ''b''), publisher = (lit ''example.com'')\<rparr>,
      \<lparr>unixTime = Num 2, newsHeadline = (lit ''c''), publisher = (lit ''example.com'')\<rparr>]"
  by (simp add: lit_simps normalizer_defs sortedByTimeDesc_def)

text \<open>
  The failure does not hang on the sort: in whatever order they stand, two or more
  records of which one has the timestamp \<open>NaN\<close> are not sorted non-increasing,
  every comparison with \<open>NaN\<close> being false.
\<close>

lemma js_ge_NaN: "\<not> js_ge NaN b" "\<not> js_ge a NaN"
  by (cases b; simp) (cases a; simp)

lemma invalid_date_never_sorted:
  assumes "r \<in> set rows" and "unixTime r = NaN" and "2 \<le> length rows"
  shows "\<not> sortedByTimeDesc rows"
proof
  assume s: "sortedByTimeDesc rows"
  obtain i where i: "i < length rows" "rows ! i = r"
    using assms(1) by (auto simp: in_set_conv_nth)
  obtain j where j: "j < length rows" "j \<noteq> i"
  proof (cases "i = 0")
    case True
    have "1 < length rows" using assms(3) by arith
    then show ?thesis using that[of 1] True by simp
  next
    case False
    have "0 < length rows" using assms(3) by arith
    then show ?thesis using that[of 0] False by blast
  qed
  have pair: "js_ge (unixTime (rows ! a)) (unixTime (rows ! b))" if "a < b" "b < length rows" for a b
    using s that by (simp add: sortedByTimeDesc_def sorted_wrt_iff_nth_less)
  show False
  proof (cases "i < j")
    case True
    then show ?thesis using pair[of i j] i j assms(2) by (simp add: js_ge_NaN)
  next
    case False
    then have "j < i" using j(2) by simp
    then show ?thesis using pair[of j i] i assms(2) by (simp add: js_ge_NaN)
  qed
qed

section \<open>The fields of a returned record\<close>

text \<open>
  Every record that \<open>parseRSS\<close> returns comes from an entry of the feed: its
  publisher, headline and timestamp are the ones computed from that entry's source
  URL, title and publish date.
\<close>

lemma parseRSS_row_fields:
  assumes "parseRSS dp item = Inr rows" and "r \<in> set rows"
  shows "\<exists>e\<in>set (entriesOf item). \<exists>url t d.
           source_url e = Str url \<and> title e = Str t \<and> pubDate e = Str d \<and>
           publisher r = publisher_of url \<and> newsHeadline_of t = Inr (newsHeadline r) \<and>
           unixTime r = unixTime_of dp d"
proof -
  let ?es = "entriesOf item"
  obtain rs where rs: "processEntries dp ?es = Inr rs" and rows: "rows = js_sort compareFn rs"
    using assms(1) by (rule parseRSS_Inr)
  have "r \<in> set rs" using assms(2) rows by (simp add: set_js_sort)
  then obtain e where e: "e \<in> set ?es" "processEntry dp e = Inr r"
    using processEntries_row[OF rs] by blast
  then show ?thesis unfolding processEntry_Inr_iff by (intro bexI[of _ e]) auto
qed

section \<open>The publisher of a record\<close>

lemma processEntries_nth:
  assumes "processEntries dp es = Inr rs" and "i < length rs"
  shows "processEntry dp (es ! i) = Inr (rs ! i)"
proof -
  have m: "map (processEntry dp) es = map Inr rs"
    using assms(1) by (simp add: processEntries_Inr_iff)
  have l: "length es = length rs" using assms(1) by (simp add: processEntries_length)
  have "processEntry dp (es ! i) = map (processEntry dp) es ! i" using assms(2) l by simp
  also have "\<dots> = map Inr rs ! i" using m by simp
  also have "\<dots> = Inr (rs ! i)" using assms(2) by simp
  finally show ?thesis .
qed

text \<open>
  Claim C9, as the code has it. The records returned are the records of the entries,
  one for each entry, put in order by the sort: \<open>rs\<close> is the array \<open>parsed\<close> before
  the sort, whose record at place \<open>i\<close> is made from the entry at place \<open>i\<close>. That
  record's headline and timestamp come from the title and the publish date of its
  entry, and its publisher is the source URL of its entry with the first
  \<open>https://\<close> and then the first \<open>www.\<close> taken out, wherever they stand; nothing
  is trimmed and no path is removed. Where that URL is \<open>https://www.\<close>,
  \<open>https://\<close> or \<open>www.\<close> followed by a rest that contains neither marker (or is
  such a rest alone), the publisher is exactly that rest, and so begins with neither
  marker.
\<close>

theorem publisher_strips_markers:
  assumes "parseRSS dp item = Inr rows"
  shows "\<exists>rs. processEntries dp (entriesOf item) = Inr rs \<and> rows = js_sort compareFn rs \<and>
              mset rows = mset rs \<and> length rs = length (entriesOf item) \<and>
              (\<forall>i<length rs. \<exists>url t d.
                 source_url (entriesOf item ! i) = Str url \<and>
                 title (entriesOf item ! i) = Str t \<and>
                 pubDate (entriesOf item ! i) = Str d \<and>
                 newsHeadline_of t = Inr (newsHeadline (rs ! i)) \<and>
                 unixTime (rs ! i) = unixTime_of dp d \<and>
                 publisher (rs ! i) =
                   js_replace (lit ''www.'') [] (js_replace (lit ''https://'') [] url) \<and>
                 (\<forall>h. \<not> js_includes (lit ''https://'') h \<and> \<not> js_includes (lit ''www.'') h \<and>
                      url \<in> {lit ''https://www.'' @ h, lit ''https://'' @ h, lit ''www.'' @ h, h} \<longrightarrow>
                      publisher (rs ! i) = h \<and> \<not> prefix (lit ''https://'') (publisher (rs ! i)) \<and>
                      \<not> prefix (lit ''www.'') (publisher (rs ! i))))"
proof -
  let ?es = "entriesOf item"
  obtain rs where rs: "processEntries dp ?es = Inr rs" and rows: "rows = js_sort compareFn rs"
    using assms by (rule parseRSS_Inr)
  have len: "length rs = length ?es" using rs by (rule processEntries_length)
  have each: "\<exists>url t d.
                 source_url (?es ! i) = Str url \<and> title (?es ! i) = Str t \<and>
                 pubDate (?es ! i) = Str d \<and>
                 newsHeadline_of t = Inr (newsHeadline (rs ! i)) \<and>
                 unixTime (rs ! i) = unixTime_of dp d \<and>
                 publisher (rs ! i) =
                   js_replace (lit ''www.'') [] (js_replace (lit ''https://'') [] url) \<and>
                 (\<forall>h. \<not> js_includes (lit ''https://'') h \<and> \<not> js_includes (lit ''www.'') h \<and>
                      url \<in> {lit ''https://www.'' @ h, lit ''https://'' @ h, lit ''www.'' @ h, h} \<longrightarrow>
                      publisher (rs ! i) = h \<and> \<not> prefix (lit ''https://'') (publisher (rs ! i)) \<and>
                      \<not> prefix (lit ''www.'') (publisher (rs ! i)))"
    if i: "i < length rs" for i
  proof -
    have "processEntry dp (?es ! i) = Inr (rs ! i)" using rs i by (rule processEntries_nth)
    then obtain url t d where f: "source_url (?es ! i) = Str url" "title (?es ! i) = Str t"
        "pubDate (?es ! i) = Str d" "newsHeadline_of t = Inr (newsHeadline (rs ! i))"
        "unixTime (rs ! i) = unixTime_of dp d" "publisher (rs ! i) = publisher_of url"
      unfolding processEntry_Inr_iff by auto
    have "publisher (rs ! i) = h \<and> \<not> prefix (lit ''https://'') (publisher (rs ! i)) \<and>
          \<not> prefix (lit ''www.'') (publisher (rs ! i))"
      if "\<not> js_includes (lit ''https://'') h" "\<not> js_includes (lit ''www.'') h"
         "url \<in> {lit ''https://www.'' @ h, lit ''https://'' @ h, lit ''www.'' @ h, h}" for h
      using publisher_of_strips_markers[OF that(1,2)] that(3) f(6) by auto
    moreover have "publisher (rs ! i) =
        js_replace (lit ''www.'') [] (js_replace (lit ''https://'') [] url)"
      using f(6) by (simp add: publisher_of_def)
    ultimately show ?thesis using f(1-5) by blast
  qed
  have "mset rows = mset rs" unfolding rows by (rule mset_js_sort)
  then show ?thesis using rs rows len each by blast
qed

theorem publisher_strips_markers_witness:
  "parseRSS sampleDates
     (Items [\<lparr>source_url = Str (lit ''https://www.aaa.com''), title = Str (lit ''Storm - Daily''),
              pubDate = Str (lit ''Thu, 01 Jan 1970 00:00:01 GMT'')\<rparr>,
             \<lparr>source_url = Str (lit ''www.bbb.com''), title = Str (lit ''Rain - Weekly''),
              pubDate = Str (lit ''Thu, 01 Jan 1970 00:00:02 GMT'')\<rparr>]) =
     Inr [\<lparr>unixTime = Num 2, newsHeadline = lit ''Rain'', publisher = lit ''bbb.com''\<rparr>,
          \<lparr>unixTime = Num 1, newsHeadline = lit ''Storm'', publisher = lit ''aaa.com''\<rparr>] \<and>
   processEntries sampleDates
     [\<lparr>source_url = Str (lit ''https://www.aaa.com''), title = Str (lit ''Storm - Daily''),
       pubDate = Str (lit ''Thu, 01 Jan 1970 00:00:01 GMT'')\<rparr>,
      \<lparr>source_url = Str (lit ''www.bbb.com''), title = Str (lit ''Rain - Weekly''),
       pubDate = Str (lit ''Thu, 01 Jan 1970 00:00:02 GMT'')\<rparr>] =
     Inr [\<lparr>unixTime = Num 1, newsHeadline = lit ''Storm'', publisher = lit ''aaa.com''\<rparr>,
          \<lparr>unixTime = Num 2, newsHeadline = lit ''Rain'', publisher = lit ''bbb.com''\<rparr>] \<and>
   \<not> js_includes (lit ''https://'') (lit ''bbb.com'') \<and> \<not> js_includes (lit ''www.'') (lit ''bbb.com'') \<and>
   \<not> prefix (lit ''www.'')
       (publisher \<lparr>unixTime = Num 2, newsHeadline = lit ''Rain'', publisher = lit ''bbb.com''\<rparr>)"
proof -
  let ?e1 = "\<lparr>source_url = Str (lit ''https://www.aaa.com''), title = Str (lit ''Storm - Daily''),
              pubDate = Str (lit ''Thu, 01 Jan 1970 00:00:01 GMT'')\<rparr>"
  let ?e2 = "\<lparr>source_url = Str (lit ''www.bbb.com''), title = Str (lit ''Rain - Weekly''),
              pubDate = Str (lit ''Thu, 01 Jan 1970 00:00:02 GMT'')\<rparr>"
  let ?r1 = "\<lparr>unixTime = Num 1, newsHeadline = lit ''Storm'', publisher = lit ''aaa.com''\<rparr>"
  let ?r2 = "\<lparr>unixTime = Num 2, newsHeadline = lit ''Rain'', publisher = lit ''bbb.com''\<rparr>"
  have a: "parseRSS sampleDates (Items [?e1, ?e2]) = Inr [?r2, ?r1]"
    by (simp add: normalizer_defs)
  have p: "processEntries sampleDates [?e1, ?e2] = Inr [?r1, ?r2]"
    by (simp add: normalizer_defs)
  have h: "\<not> js_includes (lit ''https://'') (lit ''bbb.com'')"
          "\<not> js_includes (lit ''www.'') (lit ''bbb.com'')"
    by (simp_all add: lit_simps)
  have u: "lit ''www.bbb.com'' = lit ''www.'' @ lit ''bbb.com''" by (simp add: lit_simps)
  obtain rs where rs: "processEntries sampleDates (entriesOf (Items [?e1, ?e2])) = Inr rs"
    and each: "\<forall>i<length rs. \<exists>url t d.
                 source_url (entriesOf (Items [?e1, ?e2]) ! i) = Str url \<and>
                 title (entriesOf (Items [?e1, ?e2]) ! i) = Str t \<and>
                 pubDate (entriesOf (Items [?e1, ?e2]) ! i) = Str d \<and>
                 newsHeadline_of t = Inr (newsHeadline (rs ! i)) \<and>
                 unixTime (rs ! i) = unixTime_of sampleDates d \<and>
                 publisher (rs ! i) =
                   js_replace (lit ''www.'') [] (js_replace (lit ''https://'') [] url) \<and>
                 (\<forall>h. \<not> js_includes (lit ''https://'') h \<and> \<not> js_includes (lit ''www.'') h \<and>
                      url \<in> {lit ''https://www.'' @ h, lit ''https://'' @ h, lit ''www.'' @ h, h} \<longrightarrow>
                      publisher (rs ! i) = h \<and> \<not> prefix (lit ''https://'') (publisher (rs ! i)) \<and>
                      \<not> prefix (lit ''www.'') (publisher (rs ! i)))"
    using publisher_strips_markers[OF a] by blast
  have rs_eq: "rs = [?r1, ?r2]" using rs p by (simp add: entriesOf_def)
  have "1 < length rs" using rs_eq by simp
  then obtain url where url: "source_url (entriesOf (Items [?e1, ?e2]) ! 1) = Str url"
    and imp: "\<forall>h. \<not> js_includes (lit ''https://'') h \<and> \<not> js_includes (lit ''www.'') h \<and>
                      url \<in> {lit ''https://www.'' @ h, lit ''https://'' @ h, lit ''www.'' @ h, h} \<longrightarrow>
                      publisher (rs ! 1) = h \<and> \<not> prefix (lit ''https://'') (publisher (rs ! 1)) \<and>
                      \<not> prefix (lit ''www.'') (publisher (rs ! 1))"
    using each by blast
  have "url = lit ''www.'' @ lit ''bbb.com''" using url u by (simp add: entriesOf_def)
  then have "\<not> prefix (lit ''www.'') (publisher (rs ! 1))" using imp h by blast
  then have "\<not> prefix (lit ''www.'') (publisher ?r2)" using rs_eq by simp
  then show ?thesis using a p h by blast
qed

text \<open>
  Claim C9 as the specification states it fails: a path stays in the publisher, and
  a second \<open>www.\<close> stays at its front.
\<close>

theorem publisher_host_only_counterexample:
  "parseRSS sampleDates
     (Items [\<lparr>source_url = Str (lit ''https://www.example.com/news''), title = Str (lit ''Storm - Daily''),
              pubDate = Str (lit ''Thu, 01 Jan 1970 00:00:01 GMT'')\<rparr>,
             \<lparr>source_url = Str (lit ''https://www.www.example.org''), title = Str (lit ''Rain - Weekly''),
              pubDate = Str (lit ''Thu, 01 Jan 1970 00:00:02 GMT'')\<rparr>]) =
     Inr [\<lparr>unixTime = Num 2, newsHeadline = lit ''Rain'', publisher = lit ''www.example.org''\<rparr>,
          \<lparr>unixTime = Num 1, newsHeadline = lit ''Storm'', publisher = lit ''example.com/news''\<rparr>] \<and>
   \<not> hostOnly (lit ''www.example.org'') \<and>
   \<not> hostOnly (lit ''example.com/news'')"
  by (simp add: normalizer_defs hostOnly_def)

section \<open>Facts about \<open>executeSearch\<close>\<close>

lemma executeSearch_early_return:
  "text = [] \<or> isSearching st \<Longrightarrow> executeSearch sv text forceNew st = (st, [])"
  by (simp add: executeSearch_def)

lemma executeSearch_empty_clean:
  assumes "text \<noteq> []" and "\<not> isSearching st" and "cleanQuery st text = []"
  shows "executeSearch sv text forceNew st = (st\<lparr>query := []\<rparr>, [])"
  using assms by (simp add: executeSearch_def)

lemma executeSearch_accepted:
  assumes "text \<noteq> []" and "\<not> isSearching st" and "cleanQuery st text \<noteq> []"
  shows "executeSearch sv text forceNew st =
           (afterCalls (searchMode st text forceNew) forceNew
              (currentCleanQuery st (searchMode st text forceNew) (cleanQuery st text))
              (fst (runMode sv (searchMode st text forceNew) (summaryText st) (cleanQuery st text)))
              (beforeTry text forceNew st),
            snd (runMode sv (searchMode st text forceNew) (summaryText st) (cleanQuery st text)))"
  using assms by (simp add: executeSearch_def Let_def split: prod.splits)

lemma js_trim_empty_all_space: "js_trim s = [] \<Longrightarrow> \<forall>c\<in>set s. is_space c"
proof -
  assume "js_trim s = []"
  then have "dropWhile is_space (rev (dropWhile is_space s)) = []" by (simp add: js_trim_def)
  then have "\<forall>c\<in>set (dropWhile is_space s). is_space c" by (simp add: dropWhile_eq_Nil_conv)
  then have "dropWhile is_space s = []"
    by (metis hd_dropWhile list.set_sel(1))
  then show ?thesis by (simp add: dropWhile_eq_Nil_conv)
qed

lemma blank_text_clean_empty:
  assumes "js_trim text = []"
  shows "text = [] \<or> cleanQuery st text = []"
proof (cases "text")
  case Nil
  then show ?thesis by simp
next
  case (Cons c cs)
  have "is_space c" using js_trim_empty_all_space[OF assms] Cons by simp
  then have "c \<noteq> 0x7E" "c \<noteq> 0x2B" by (auto simp: is_space_def)
  then have "\<not> isGeneral text" "\<not> isMerge st text" using Cons by (auto simp: isGeneral_def isMerge_def lit_simps)
  then show ?thesis using assms by (simp add: cleanQuery_def)
qed

lemma addMsg_frame [simp]:
  "lastQuery (addMsg m s) = lastQuery s" "rootQuery (addMsg m s) = rootQuery s"
  "isNewsSession (addMsg m s) = isNewsSession s" "isSearching (addMsg m s) = isSearching s"
  "isResultMode (addMsg m s) = isResultMode s" "query (addMsg m s) = query s"
  "nextId (addMsg m s) = nextId s + 1"
  by (simp_all add: addMsg_def)

lemma afterCalls_frame [simp]:
  "lastQuery (afterCalls mode f label outcome s) = lastQuery s"
  "rootQuery (afterCalls mode f label outcome s) = rootQuery s"
  "isNewsSession (afterCalls mode f label outcome s) = isNewsSession s"
  "isSearching (afterCalls mode f label outcome s) = False"
  by (simp_all add: afterCalls_def Let_def split: sum.splits)

lemma afterCalls_failure:
  "conversation (afterCalls mode f label (Inl e) s) = conversation s @ [errorMessage e (nextId s)]"
  by (simp add: afterCalls_def addMsg_def errorMessage_def no_fields_def)

lemma afterCalls_success_replace:
  "f \<or> mode = Rss \<Longrightarrow>
   conversation (afterCalls mode f label (Inr result) s) = [newMessage mode label result (nextId s)]"
  by (auto simp: afterCalls_def Let_def)

lemma afterCalls_success_append:
  "\<not> f \<Longrightarrow> mode \<noteq> Rss \<Longrightarrow>
   conversation (afterCalls mode f label (Inr result) s) =
     conversation s @ [newMessage mode label result (nextId s)]"
  by (auto simp: afterCalls_def Let_def addMsg_def newMessage_def)

lemma beforeTry_lock [simp]: "isSearching (beforeTry text forceNew st) = True"
  by (simp add: beforeTry_def Let_def)

lemma beforeTry_Rss:
  assumes "searchMode st text forceNew = Rss"
  shows "conversation (beforeTry text forceNew st) = (if forceNew then conversation st else [])"
    and "nextId (beforeTry text forceNew st) = nextId st"
    and "isNewsSession (beforeTry text forceNew st) = True"
    and "lastQuery (beforeTry text forceNew st) = Some (cleanQuery st text)"
    and "rootQuery (beforeTry text forceNew st) = Some (cleanQuery st text)"
  using assms by (simp_all add: beforeTry_def Let_def currentCleanQuery_def)

lemma beforeTry_General:
  assumes "searchMode st text forceNew = General"
  shows "lastQuery (beforeTry text forceNew st) = lastQuery st"
    and "rootQuery (beforeTry text forceNew st) = rootQuery st"
    and "isNewsSession (beforeTry text forceNew st) = isNewsSession st"
  using assms by (simp_all add: beforeTry_def Let_def)

lemma beforeTry_Followup:
  assumes "searchMode st text forceNew = Followup"
  shows "lastQuery (beforeTry text forceNew st) = lastQuery st"
    and "rootQuery (beforeTry text forceNew st) = rootQuery st"
    and "isNewsSession (beforeTry text forceNew st) = isNewsSession st"
  using assms by (simp_all add: beforeTry_def Let_def)

lemma beforeTry_Merge:
  assumes "searchMode st text forceNew = Merge"
  shows "lastQuery (beforeTry text forceNew st) =
           Some (template (lastQuery st) @ (lit '' + '') @ cleanQuery st text)"
    and "rootQuery (beforeTry text forceNew st) = rootQuery st"
    and "isNewsSession (beforeTry text forceNew st) = isNewsSession st"
  using assms by (simp_all add: beforeTry_def Let_def currentCleanQuery_def)

lemma searchMode_General_iff: "searchMode st text forceNew = General \<longleftrightarrow> prefix (lit ''~'') text"
  by (simp add: searchMode_def isGeneral_def)

lemma not_both_markers: "prefix (lit ''+'') text \<Longrightarrow> \<not> prefix (lit ''~'') text"
  by (cases "text") (auto simp: lit_simps)

lemma searchMode_Merge_iff:
  "searchMode st text forceNew = Merge \<longleftrightarrow>
     prefix (lit ''+'') text \<and> conversation st \<noteq> [] \<and> isNewsSession st"
  using not_both_markers
  by (auto simp: searchMode_def isGeneral_def isMerge_def hasSummary_def)

lemma searchMode_Followup_iff:
  "searchMode st text forceNew = Followup \<longleftrightarrow>
     \<not> prefix (lit ''~'') text \<and> \<not> prefix (lit ''+'') text \<and> conversation st \<noteq> [] \<and> \<not> forceNew
     \<and> isNewsSession st"
  by (auto simp: searchMode_def isGeneral_def isMerge_def hasSummary_def)

lemma summaryText_last:
  assumes "conversation st = older @ m # newer" and "isNewsSummary m"
    and "\<forall>x\<in>set newer. \<not> isNewsSummary x"
  shows "summaryText st = msg_text m"
proof -
  have "find isNewsSummary (rev newer @ m # rev older) = Some m"
    using assms(2,3) by (induction newer rule: rev_induct) auto
  then show ?thesis using assms(1) by (simp add: summaryText_def)
qed

lemma summaryText_none:
  assumes "filter isNewsSummary (conversation st) = []"
  shows "summaryText st = []"
proof -
  have "\<forall>x\<in>set (rev (conversation st)). \<not> isNewsSummary x"
    using assms by (simp add: filter_empty_conv)
  then have "find isNewsSummary (rev (conversation st)) = None"
    by (simp add: find_None_iff)
  then show ?thesis by (simp add: summaryText_def)
qed

lemma executeSearch_not_accepted:
  assumes "\<not> accepted st text"
  shows "executeSearch sv text forceNew st =
           (if text = [] \<or> isSearching st then st else st\<lparr>query := []\<rparr>, [])"
proof (cases "text = [] \<or> isSearching st")
  case True
  then show ?thesis by (simp add: executeSearch_early_return)
next
  case False
  then have "cleanQuery st text = []" using assms by (simp add: accepted_def)
  then have "executeSearch sv text forceNew st = (st\<lparr>query := []\<rparr>, [])"
    using False by (intro executeSearch_empty_clean) auto
  then show ?thesis using False by simp
qed

lemma accepted_executeSearch:
  assumes "accepted st text"
  shows "executeSearch sv text forceNew st =
           (afterCalls (searchMode st text forceNew) forceNew
              (currentCleanQuery st (searchMode st text forceNew) (cleanQuery st text))
              (fst (runMode sv (searchMode st text forceNew) (summaryText st) (cleanQuery st text)))
              (beforeTry text forceNew st),
            snd (runMode sv (searchMode st text forceNew) (summaryText st) (cleanQuery st text)))"
  using assms by (intro executeSearch_accepted) (simp_all add: accepted_def)

lemma pipelineFails_iff:
  "pipelineFails sv mode context clean e \<longleftrightarrow> fst (runMode sv mode context clean) = Inl e"
  by (cases mode)
     (auto simp: pipelineFails_def runMode_def fetchRSS_def split: sum.splits prod.splits)

lemmas client_defs =
  lit_simps executeSearch_def beforeTry_def afterCalls_def runMode_def fetchRSS_def searchMode_def
  cleanQuery_def isGeneral_def isMerge_def hasSummary_def currentCleanQuery_def template_def
  addMsg_def no_fields_def newMessage_def errorMessage_def summaryText_def isNewsSummary_def
  js_trim_def is_space_def okServices_def relayDown_def freshState_def
  icon_news_def icon_search_def icon_plus_def icon_warning_def

lemma afterFirstSearch_eq:
  "afterFirstSearch =
     \<lparr>query = [],
      conversation = [newMessage Rss (lit ''us elections'') (lit ''summary'') 0],
      isSearching = False, lastQuery = Some (lit ''us elections''), rootQuery = Some (lit ''us elections''),
      isNewsSession = True, isResultMode = True, nextId = 1\<rparr>"
  by (simp add: lit_simps afterFirstSearch_def client_defs Let_def)

lemma afterGeneralSearch_eq:
  "afterGeneralSearch =
     \<lparr>query = [],
      conversation =
        [\<lparr>msg_id = 0, msg_type = Question, msg_text = icon_search @ lit '' tell me a joke'',
          isUser = True, initialQuery = None\<rparr>,
         newMessage General (lit ''tell me a joke'') (lit ''answer'') 1],
      isSearching = False, lastQuery = None, rootQuery = None,
      isNewsSession = False, isResultMode = True, nextId = 2\<rparr>"
  by (simp add: afterGeneralSearch_def client_defs Let_def)

lemma afterFailedSearch_eq:
  "afterFailedSearch =
     \<lparr>query = [],
      conversation = [errorMessage (lit ''Service Unavailable'') 0],
      isSearching = False, lastQuery = Some (lit ''us elections''), rootQuery = Some (lit ''us elections''),
      isNewsSession = True, isResultMode = True, nextId = 1\<rparr>"
  by (simp add: lit_simps afterFailedSearch_def client_defs Let_def)

section \<open>Rejected invocations\<close>

text \<open>
  Claim C7. An invocation made while a search is running, or with a text that is
  empty once trimmed, or with a clean query that is empty once a marker is taken
  off, makes no service call and leaves the conversation, the root topic, the last
  query, the news-session flag and the busy flag as they were; of the whole state
  only the text of the input field may have been cleared.
\<close>

theorem rejected_invocation_changes_nothing:
  assumes "isSearching st \<or> js_trim text = [] \<or> cleanQuery st text = []"
  shows "snd (executeSearch sv text forceNew st) = [] \<and>
         conversation (fst (executeSearch sv text forceNew st)) = conversation st \<and>
         rootQuery (fst (executeSearch sv text forceNew st)) = rootQuery st \<and>
         lastQuery (fst (executeSearch sv text forceNew st)) = lastQuery st \<and>
         isNewsSession (fst (executeSearch sv text forceNew st)) = isNewsSession st \<and>
         isSearching (fst (executeSearch sv text forceNew st)) = isSearching st \<and>
         (fst (executeSearch sv text forceNew st))\<lparr>query := query st\<rparr> = st"
proof (cases "text = [] \<or> isSearching st")
  case True
  then show ?thesis by (simp add: executeSearch_early_return)
next
  case False
  then have "cleanQuery st text = []" using assms blank_text_clean_empty[of "text" st] by auto
  then have "executeSearch sv text forceNew st = (st\<lparr>query := []\<rparr>, [])"
    using False by (intro executeSearch_empty_clean) auto
  then show ?thesis by simp
qed

theorem rejected_invocation_changes_nothing_witness:
  "cleanQuery afterFirstSearch (lit ''~'') = [] \<and>
   snd (executeSearch okServices (lit ''~'') False afterFirstSearch) = [] \<and>
   conversation (fst (executeSearch okServices (lit ''~'') False afterFirstSearch)) =
     conversation afterFirstSearch \<and>
   isSearching (afterFirstSearch\<lparr>isSearching := True\<rparr>) \<and>
   snd (executeSearch okServices (lit ''us elections'') False (afterFirstSearch\<lparr>isSearching := True\<rparr>)) = []"
proof -
  have a: "cleanQuery afterFirstSearch (lit ''~'') = []"
    by (simp add: lit_simps cleanQuery_def isGeneral_def js_trim_def)
  have b: "isSearching (afterFirstSearch\<lparr>isSearching := True\<rparr>)" by (simp add: lit_simps)
  show ?thesis
    using a b
      rejected_invocation_changes_nothing[of afterFirstSearch "(lit ''~'')" okServices False]
      rejected_invocation_changes_nothing[of "afterFirstSearch\<lparr>isSearching := True\<rparr>"
         "(lit ''us elections'')" okServices False]
    by (simp add: lit_simps)
qed

section \<open>Failures of the pipeline\<close>

text \<open>
  Claim C8. For an invocation that is accepted, the busy flag is set when the
  \<open>try\<close> block is entered and is cleared in the final state whatever the calls
  did; and when some call of the pipeline throws, wherever it stands, the final
  conversation is the conversation as it was when \<open>try\<close> was entered with exactly
  one message appended: the error message of the \<open>catch\<close> block. \<open>executeSearch\<close>
  returns a state in every case: nothing is thrown on to the caller.
\<close>

theorem pipeline_failure_is_one_error_message:
  assumes "accepted st text"
  shows "isSearching (beforeTry text forceNew st) \<and>
         \<not> isSearching (fst (executeSearch sv text forceNew st)) \<and>
         (\<forall>e. pipelineFails sv (searchMode st text forceNew) (summaryText st) (cleanQuery st text) e
               \<longrightarrow> conversation (fst (executeSearch sv text forceNew st)) =
                    conversation (beforeTry text forceNew st) @
                      [errorMessage e (nextId (beforeTry text forceNew st))])"
  by (simp add: accepted_executeSearch[OF assms] pipelineFails_iff afterCalls_failure)

theorem pipeline_failure_is_one_error_message_witness:
  "accepted freshState (lit ''us elections'') \<and>
   pipelineFails relayDown Rss [] (lit ''us elections'') (lit ''Service Unavailable'') \<and>
   conversation (fst (executeSearch relayDown (lit ''us elections'') False freshState)) =
     [errorMessage (lit ''Service Unavailable'') 0] \<and>
   \<not> isSearching (fst (executeSearch relayDown (lit ''us elections'') False freshState))"
proof -
  have a: "accepted freshState (lit ''us elections'')"
    by (simp add: lit_simps accepted_def cleanQuery_def isGeneral_def isMerge_def js_trim_def is_space_def
          freshState_def lit_simps)
  have m: "searchMode freshState (lit ''us elections'') False = Rss"
    by (simp add: lit_simps searchMode_def isGeneral_def isMerge_def hasSummary_def freshState_def)
  have c: "cleanQuery freshState (lit ''us elections'') = (lit ''us elections'')"
    by (simp add: lit_simps cleanQuery_def isGeneral_def isMerge_def js_trim_def is_space_def)
  have s: "summaryText freshState = []" by (simp add: lit_simps summaryText_def freshState_def)
  have p: "pipelineFails relayDown Rss [] (lit ''us elections'') (lit ''Service Unavailable'')"
    by (simp add: lit_simps pipelineFails_def relayDown_def okServices_def)
  have b: "conversation (beforeTry (lit ''us elections'') False freshState) = []"
          "nextId (beforeTry (lit ''us elections'') False freshState) = 0"
    using beforeTry_Rss[OF m] by (simp_all add: lit_simps freshState_def)
  show ?thesis
    using pipeline_failure_is_one_error_message[OF a, of False relayDown] a p m c s b by (simp add: lit_simps)
qed

section \<open>Mode rss: refresh and new topic\<close>

lemma afterCalls_success_nextId:
  "f \<or> mode = Rss \<Longrightarrow> nextId (afterCalls mode f label (Inr result) s) = nextId s + 1"
  by (auto simp: afterCalls_def Let_def)

text \<open>
  Claim C6. In mode rss the conversation is emptied before the calls when
  \<open>forceNew\<close> is false and is kept when it is true; the calls are the relay's fetch
  of the clean query and, when it answers, the summary of the rows; and when both
  succeed the final conversation is, in both cases, exactly one message, whatever
  the conversation held before: the message of kind summary whose text is the
  result, whose identifier is the value of the counter, which is then advanced, and
  whose label is the news sign, a space and the clean query.
\<close>

theorem rss_mode_replaces_conversation:
  assumes "accepted st text" and "searchMode st text forceNew = Rss"
  shows "(forceNew \<longrightarrow> conversation (beforeTry text forceNew st) = conversation st) \<and>
         (\<not> forceNew \<longrightarrow> conversation (beforeTry text forceNew st) = []) \<and>
         snd (executeSearch sv text forceNew st) =
           (case relayFetch sv (cleanQuery st text) of
              Inl e \<Rightarrow> [RelayFetch (cleanQuery st text)]
            | Inr csv \<Rightarrow> [RelayFetch (cleanQuery st text), SummarizeCSV csv]) \<and>
         (\<forall>csv result.
            relayFetch sv (cleanQuery st text) = Inr csv \<and> summarizeCSV sv csv = Inr result \<longrightarrow>
            conversation (fst (executeSearch sv text forceNew st)) =
              [\<lparr>msg_id = nextId st, msg_type = Summary, msg_text = result, isUser = False,
                initialQuery = Some ([0xD83D, 0xDCF0, 0x20] @ cleanQuery st text)\<rparr>] \<and>
            nextId (fst (executeSearch sv text forceNew st)) = nextId st + 1)"
proof -
  let ?clean = "cleanQuery st text"
  have r: "runMode sv Rss (summaryText st) ?clean = fetchRSS sv ?clean"
    by (simp add: runMode_def)
  have l: "currentCleanQuery st Rss ?clean = ?clean"
    by (simp add: currentCleanQuery_def)
  have e: "executeSearch sv text forceNew st =
             (afterCalls Rss forceNew ?clean (fst (fetchRSS sv ?clean)) (beforeTry text forceNew st),
              snd (fetchRSS sv ?clean))"
    using accepted_executeSearch[OF assms(1), of sv forceNew] by (simp add: assms(2) r l)
  have calls: "snd (fetchRSS sv ?clean) =
           (case relayFetch sv ?clean of
              Inl e \<Rightarrow> [RelayFetch ?clean]
            | Inr csv \<Rightarrow> [RelayFetch ?clean, SummarizeCSV csv])"
    by (simp add: fetchRSS_def split: sum.splits)
  have ok: "conversation (fst (executeSearch sv text forceNew st)) =
              [\<lparr>msg_id = nextId st, msg_type = Summary, msg_text = result, isUser = False,
                initialQuery = Some ([0xD83D, 0xDCF0, 0x20] @ ?clean)\<rparr>] \<and>
            nextId (fst (executeSearch sv text forceNew st)) = nextId st + 1"
    if "relayFetch sv ?clean = Inr csv" "summarizeCSV sv csv = Inr result" for csv result
  proof -
    have f: "fst (fetchRSS sv ?clean) = Inr result" using that by (simp add: fetchRSS_def)
    have "conversation (afterCalls Rss forceNew ?clean (Inr result) (beforeTry text forceNew st)) =
          [newMessage Rss ?clean result (nextId st)]"
      using beforeTry_Rss(2)[OF assms(2)] by (simp add: afterCalls_success_replace)
    moreover have "nextId (afterCalls Rss forceNew ?clean (Inr result) (beforeTry text forceNew st)) =
          nextId st + 1"
      using beforeTry_Rss(2)[OF assms(2)] by (simp add: afterCalls_success_nextId)
    moreover have "newMessage Rss ?clean result (nextId st) =
          \<lparr>msg_id = nextId st, msg_type = Summary, msg_text = result, isUser = False,
            initialQuery = Some ([0xD83D, 0xDCF0, 0x20] @ ?clean)\<rparr>"
      by (simp add: newMessage_def icon_news_def lit_simps)
    ultimately show ?thesis using e f by simp
  qed
  have before: "conversation (beforeTry text forceNew st) = (if forceNew then conversation st else [])"
    by (rule beforeTry_Rss(1)[OF assms(2)])
  have c1: "snd (executeSearch sv text forceNew st) =
           (case relayFetch sv ?clean of
              Inl e \<Rightarrow> [RelayFetch ?clean]
            | Inr csv \<Rightarrow> [RelayFetch ?clean, SummarizeCSV csv])"
    using e calls by simp
  have b1: "forceNew \<longrightarrow> conversation (beforeTry text forceNew st) = conversation st"
    using before by (cases forceNew) simp_all
  have b2: "\<not> forceNew \<longrightarrow> conversation (beforeTry text forceNew st) = []"
    using before by (cases forceNew) simp_all
  show ?thesis using b1 b2 c1 ok by blast
qed

theorem rss_mode_replaces_conversation_witness:
  "accepted afterFirstSearch (lit ''us elections'') \<and>
   searchMode afterFirstSearch (lit ''us elections'') True = Rss \<and>
   conversation afterFirstSearch =
     [\<lparr>msg_id = 0, msg_type = Summary, msg_text = lit ''summary'', isUser = False,
       initialQuery = Some ([0xD83D, 0xDCF0, 0x20] @ lit ''us elections'')\<rparr>] \<and>
   conversation (beforeTry (lit ''us elections'') True afterFirstSearch) =
     conversation afterFirstSearch \<and>
   conversation (fst (executeSearch okServices (lit ''us elections'') True afterFirstSearch)) =
     [\<lparr>msg_id = 1, msg_type = Summary, msg_text = lit ''summary'', isUser = False,
       initialQuery = Some ([0xD83D, 0xDCF0, 0x20] @ lit ''us elections'')\<rparr>] \<and>
   accepted afterGeneralSearch (lit ''us elections'') \<and>
   searchMode afterGeneralSearch (lit ''us elections'') False = Rss \<and>
   length (conversation afterGeneralSearch) = 2 \<and>
   conversation (beforeTry (lit ''us elections'') False afterGeneralSearch) = [] \<and>
   conversation (fst (executeSearch okServices (lit ''us elections'') False afterGeneralSearch)) =
     [\<lparr>msg_id = 2, msg_type = Summary, msg_text = lit ''summary'', isUser = False,
       initialQuery = Some ([0xD83D, 0xDCF0, 0x20] @ lit ''us elections'')\<rparr>]"
proof -
  have c: "cleanQuery afterFirstSearch (lit ''us elections'') = lit ''us elections''"
          "cleanQuery afterGeneralSearch (lit ''us elections'') = lit ''us elections''"
    by (simp_all add: lit_simps cleanQuery_def isGeneral_def isMerge_def js_trim_def is_space_def)
  have a: "accepted afterFirstSearch (lit ''us elections'')"
          "accepted afterGeneralSearch (lit ''us elections'')"
    by (simp_all add: accepted_def c) (simp_all add: afterFirstSearch_eq afterGeneralSearch_eq)
  have m: "searchMode afterFirstSearch (lit ''us elections'') True = Rss"
          "searchMode afterGeneralSearch (lit ''us elections'') False = Rss"
    by (simp_all add: lit_simps searchMode_def isGeneral_def isMerge_def hasSummary_def
          afterGeneralSearch_eq)
  have f: "relayFetch okServices (lit ''us elections'') = Inr (lit ''rows'')"
          "summarizeCSV okServices (lit ''rows'') = Inr (lit ''summary'')"
    by (simp_all add: okServices_def)
  have n: "nextId afterFirstSearch = 1" "nextId afterGeneralSearch = 2"
    by (simp_all add: afterFirstSearch_eq afterGeneralSearch_eq)
  have old: "conversation afterFirstSearch =
     [\<lparr>msg_id = 0, msg_type = Summary, msg_text = lit ''summary'', isUser = False,
       initialQuery = Some ([0xD83D, 0xDCF0, 0x20] @ lit ''us elections'')\<rparr>]"
    by (simp add: afterFirstSearch_eq newMessage_def icon_news_def lit_simps)
  have two: "length (conversation afterGeneralSearch) = 2"
    by (simp add: afterGeneralSearch_eq)
  have t1: "conversation (beforeTry (lit ''us elections'') True afterFirstSearch) =
              conversation afterFirstSearch \<and>
            conversation (fst (executeSearch okServices (lit ''us elections'') True afterFirstSearch)) =
              [\<lparr>msg_id = 1, msg_type = Summary, msg_text = lit ''summary'', isUser = False,
                initialQuery = Some ([0xD83D, 0xDCF0, 0x20] @ lit ''us elections'')\<rparr>]"
    using rss_mode_replaces_conversation[OF a(1) m(1), of okServices] f
    by (simp add: c n)
  have t2: "conversation (beforeTry (lit ''us elections'') False afterGeneralSearch) = [] \<and>
            conversation (fst (executeSearch okServices (lit ''us elections'') False afterGeneralSearch)) =
              [\<lparr>msg_id = 2, msg_type = Summary, msg_text = lit ''summary'', isUser = False,
                initialQuery = Some ([0xD83D, 0xDCF0, 0x20] @ lit ''us elections'')\<rparr>]"
    using rss_mode_replaces_conversation[OF a(2) m(2), of okServices] f
    by (simp add: c n)
  show ?thesis using a m old two t1 t2 by blast
qed

lemma executeSearch_lastQuery_rootQuery:
  "lastQuery (fst (executeSearch sv text forceNew st)) =
     (if accepted st text then lastQuery (beforeTry text forceNew st) else lastQuery st)"
  "rootQuery (fst (executeSearch sv text forceNew st)) =
     (if accepted st text then rootQuery (beforeTry text forceNew st) else rootQuery st)"
proof -
  have r: "lastQuery (fst (executeSearch sv text forceNew st)) = lastQuery st \<and>
           rootQuery (fst (executeSearch sv text forceNew st)) = rootQuery st"
    if "\<not> accepted st text"
  proof (cases "text = [] \<or> isSearching st")
    case True
    then show ?thesis by (simp add: executeSearch_early_return)
  next
    case False
    then have "cleanQuery st text = []" using that by (simp add: accepted_def)
    then have "executeSearch sv text forceNew st = (st\<lparr>query := []\<rparr>, [])"
      using False by (intro executeSearch_empty_clean) auto
    then show ?thesis by simp
  qed
  show "lastQuery (fst (executeSearch sv text forceNew st)) =
     (if accepted st text then lastQuery (beforeTry text forceNew st) else lastQuery st)"
    using r by (simp add: accepted_executeSearch)
  show "rootQuery (fst (executeSearch sv text forceNew st)) =
     (if accepted st text then rootQuery (beforeTry text forceNew st) else rootQuery st)"
    using r by (simp add: accepted_executeSearch)
qed

text \<open>
  The refresh button on a root topic that carries no marker: the invocation is the
  one of the theorem above with \<open>forceNew\<close> true, and its mode is rss.
\<close>

lemma onRefresh_plain_topic:
  assumes "rootQuery st = Some r" and "r \<noteq> []" and "\<not> prefix (lit ''~'') r" and "\<not> prefix (lit ''+'') r"
  shows "onRefresh sv st = executeSearch sv r True st \<and> searchMode st r True = Rss"
  using assms by (simp add: onRefresh_def searchMode_def isGeneral_def isMerge_def)

section \<open>The marker of a general query\<close>

lemma general_ignores_topic_fields:
  assumes "prefix (lit ''~'') text"
  shows "executeSearch sv text forceNew (st\<lparr>rootQuery := r, lastQuery := l\<rparr>) =
           ((fst (executeSearch sv text forceNew st))\<lparr>rootQuery := r, lastQuery := l\<rparr>,
            snd (executeSearch sv text forceNew st))"
proof -
  let ?st' = "st\<lparr>rootQuery := r, lastQuery := l\<rparr>"
  have m: "searchMode st text forceNew = General" "searchMode ?st' text forceNew = General"
    using assms by (simp_all add: searchMode_General_iff)
  have c: "cleanQuery ?st' text = cleanQuery st text"
    by (simp add: cleanQuery_def isMerge_def hasSummary_def)
  have s: "summaryText ?st' = summaryText st" by (simp add: summaryText_def)
  have a: "accepted ?st' text = accepted st text" by (simp add: accepted_def c)
  have b: "beforeTry text forceNew ?st' = (beforeTry text forceNew st)\<lparr>rootQuery := r, lastQuery := l\<rparr>"
    using m by (simp add: beforeTry_def Let_def c addMsg_def no_fields_def)
  have f: "afterCalls General forceNew label outcome (s0\<lparr>rootQuery := r, lastQuery := l\<rparr>) =
           (afterCalls General forceNew label outcome s0)\<lparr>rootQuery := r, lastQuery := l\<rparr>"
    for label outcome s0
    by (cases outcome) (simp_all add: afterCalls_def Let_def addMsg_def no_fields_def)
  show ?thesis
  proof (cases "accepted st text")
    case True
    then show ?thesis
      using a m by (simp add: accepted_executeSearch c s b f currentCleanQuery_def)
  next
    case False
    then show ?thesis using a by (auto simp: executeSearch_not_accepted)
  qed
qed

text \<open>
  Claim C10. For every state, a text whose trimmed form begins with \<open>~\<close> has
  mode general, its clean query is the trimmed text without the marker, trimmed
  again; the root topic and the last query are not changed; the only call, made
  unless a search is running or the clean query is empty, is the general search of
  the clean query: no summary is looked for; and the root topic and the last query
  are not read either: with any other values in these two fields the invocation makes
  the same calls and ends in the same state, those two fields apart.
\<close>

theorem general_marker:
  assumes "prefix (lit ''~'') (js_trim input)"
  shows "searchMode st (js_trim input) forceNew = General \<and>
         cleanQuery st (js_trim input) = js_trim (drop 1 (js_trim input)) \<and>
         rootQuery (fst (executeSearch sv (js_trim input) forceNew st)) = rootQuery st \<and>
         lastQuery (fst (executeSearch sv (js_trim input) forceNew st)) = lastQuery st \<and>
         snd (executeSearch sv (js_trim input) forceNew st) =
           (if isSearching st \<or> js_trim (drop 1 (js_trim input)) = [] then []
            else [GeneralSearch (js_trim (drop 1 (js_trim input)))]) \<and>
         (\<forall>r l. executeSearch sv (js_trim input) forceNew (st\<lparr>rootQuery := r, lastQuery := l\<rparr>) =
                  ((fst (executeSearch sv (js_trim input) forceNew st))
                     \<lparr>rootQuery := r, lastQuery := l\<rparr>,
                   snd (executeSearch sv (js_trim input) forceNew st)))"
proof -
  let ?t = "js_trim input"
  have m: "searchMode st ?t forceNew = General" using assms by (simp add: searchMode_General_iff)
  have c: "cleanQuery st ?t = js_trim (drop 1 ?t)"
    using assms by (simp add: cleanQuery_def isGeneral_def)
  have ne: "?t \<noteq> []" using assms by auto
  have acc: "accepted st ?t \<longleftrightarrow> \<not> (isSearching st \<or> js_trim (drop 1 ?t) = [])"
    using ne c by (auto simp: accepted_def)
  have calls: "snd (executeSearch sv ?t forceNew st) =
           (if isSearching st \<or> js_trim (drop 1 ?t) = [] then []
            else [GeneralSearch (js_trim (drop 1 ?t))])"
  proof (cases "accepted st ?t")
    case True
    then show ?thesis using acc m c
      by (simp add: accepted_executeSearch runMode_def)
  next
    case False
    then have "snd (executeSearch sv ?t forceNew st) = []"
      by (simp add: executeSearch_not_accepted)
    then show ?thesis using False acc by simp
  qed
  have frame: "rootQuery (fst (executeSearch sv ?t forceNew st)) = rootQuery st"
              "lastQuery (fst (executeSearch sv ?t forceNew st)) = lastQuery st"
    using beforeTry_General(1,2)[OF m] by (simp_all add: executeSearch_lastQuery_rootQuery)
  show ?thesis
    using m c calls frame general_ignores_topic_fields[OF assms] by blast
qed

theorem general_marker_witness:
  "prefix (lit ''~'') (js_trim (lit '' ~tell me a joke '')) \<and>
   js_trim (lit '' ~tell me a joke '') = (lit ''~tell me a joke'') \<and>
   searchMode freshState (lit ''~tell me a joke'') False = General \<and>
   cleanQuery freshState (lit ''~tell me a joke'') = (lit ''tell me a joke'') \<and>
   snd (executeSearch okServices (lit ''~tell me a joke'') False freshState) =
     [GeneralSearch (lit ''tell me a joke'')] \<and>
   js_trim (lit ''~'' @ 0xA0 # lit ''x'') = lit ''~'' @ 0xA0 # lit ''x'' \<and>
   cleanQuery freshState (lit ''~'' @ 0xA0 # lit ''x'') = lit ''x'' \<and>
   snd (executeSearch okServices (lit ''~'' @ 0xA0 # lit ''x'') False freshState) =
     [GeneralSearch (lit ''x'')]"
proof -
  have t': "js_trim (lit ''~'' @ 0xA0 # lit ''x'') = lit ''~'' @ 0xA0 # lit ''x''"
    by (simp add: lit_simps js_trim_def is_space_def)
  have d': "js_trim (drop 1 (lit ''~'' @ 0xA0 # lit ''x'')) = lit ''x''"
    by (simp add: lit_simps js_trim_def is_space_def)
  have p': "prefix (lit ''~'') (js_trim (lit ''~'' @ 0xA0 # lit ''x''))"
    unfolding t' by (simp add: lit_simps)
  have n': "lit ''x'' \<noteq> []" by simp
  have b': "\<not> isSearching freshState" by (simp add: freshState_def)
  have g': "cleanQuery freshState (lit ''~'' @ 0xA0 # lit ''x'') = lit ''x'' \<and>
            snd (executeSearch okServices (lit ''~'' @ 0xA0 # lit ''x'') False freshState) =
              [GeneralSearch (lit ''x'')]"
    using general_marker[OF p', of freshState False okServices] n' b'
    unfolding t' d' by simp
  have t: "js_trim (lit '' ~tell me a joke '') = (lit ''~tell me a joke'')"
    by (simp add: lit_simps js_trim_def is_space_def)
  have d: "js_trim (drop 1 (lit ''~tell me a joke'')) = (lit ''tell me a joke'')"
    by (simp add: lit_simps js_trim_def is_space_def)
  have p: "prefix (lit ''~'') (js_trim (lit '' ~tell me a joke ''))" unfolding t by (simp add: lit_simps)
  have b: "\<not> isSearching freshState" by (simp add: lit_simps freshState_def)
  have n: "lit ''tell me a joke'' \<noteq> []" by simp
  have g: "searchMode freshState (lit ''~tell me a joke'') False = General \<and>
           cleanQuery freshState (lit ''~tell me a joke'') = lit ''tell me a joke'' \<and>
           snd (executeSearch okServices (lit ''~tell me a joke'') False freshState) =
             [GeneralSearch (lit ''tell me a joke'')]"
    using general_marker[OF p, of freshState False okServices] b n
    unfolding t d by simp
  show ?thesis using p t g t' g' by blast
qed

section \<open>Mode merge\<close>

text \<open>
  Claim C4, as the code has it. The mode is merge exactly when the text begins with
  \<open>+\<close>, the conversation is not empty (whatever its messages are) and the session
  is a news session. For such an invocation, once accepted, the clean query is the
  text without the marker, trimmed; the topic label is the last query, \<open>" + "\<close>
  and the clean query; the last query becomes that label, before the calls and in
  the final state; the root topic is not changed.
\<close>

theorem merge_mode:
  "(searchMode st text forceNew = Merge \<longleftrightarrow>
      prefix (lit ''+'') text \<and> conversation st \<noteq> [] \<and> isNewsSession st) \<and>
   (searchMode st text forceNew = Merge \<and> accepted st text \<longrightarrow>
      cleanQuery st text = js_trim (drop 1 text) \<and>
      currentCleanQuery st Merge (cleanQuery st text) =
        template (lastQuery st) @ (lit '' + '') @ js_trim (drop 1 text) \<and>
      lastQuery (beforeTry text forceNew st) =
        Some (template (lastQuery st) @ (lit '' + '') @ js_trim (drop 1 text)) \<and>
      lastQuery (fst (executeSearch sv text forceNew st)) =
        Some (template (lastQuery st) @ (lit '' + '') @ js_trim (drop 1 text)) \<and>
      rootQuery (fst (executeSearch sv text forceNew st)) = rootQuery st)"
proof -
  have "cleanQuery st text = js_trim (drop 1 text)" if "searchMode st text forceNew = Merge"
    using that by (auto simp: searchMode_def cleanQuery_def split: if_splits)
  then show ?thesis
    using beforeTry_Merge(1,2)[of st "text" forceNew]
    by (auto simp: searchMode_Merge_iff executeSearch_lastQuery_rootQuery currentCleanQuery_def)
qed

theorem merge_mode_witness:
  "searchMode afterFirstSearch (lit ''+inflation'') False = Merge \<and>
   accepted afterFirstSearch (lit ''+inflation'') \<and>
   cleanQuery afterFirstSearch (lit ''+inflation'') = (lit ''inflation'') \<and>
   lastQuery (fst (executeSearch okServices (lit ''+inflation'') False afterFirstSearch)) =
     Some (lit ''us elections + inflation'') \<and>
   rootQuery (fst (executeSearch okServices (lit ''+inflation'') False afterFirstSearch)) =
     Some (lit ''us elections'') \<and>
   searchMode afterFirstSearch (lit ''+'' @ 0xA0 # lit ''inflation'') False = Merge \<and>
   accepted afterFirstSearch (lit ''+'' @ 0xA0 # lit ''inflation'') \<and>
   lastQuery (fst (executeSearch okServices (lit ''+'' @ 0xA0 # lit ''inflation'') False
                     afterFirstSearch)) =
     Some (lit ''us elections + inflation'')"
proof -
  have m': "searchMode afterFirstSearch (lit ''+'' @ 0xA0 # lit ''inflation'') False = Merge"
    by (simp add: lit_simps searchMode_Merge_iff afterFirstSearch_eq)
  have d': "js_trim (drop 1 (lit ''+'' @ 0xA0 # lit ''inflation'')) = lit ''inflation''"
    by (simp add: lit_simps js_trim_def is_space_def)
  have c': "cleanQuery afterFirstSearch (lit ''+'' @ 0xA0 # lit ''inflation'') = lit ''inflation''"
    by (simp add: lit_simps cleanQuery_def isGeneral_def isMerge_def hasSummary_def afterFirstSearch_eq
          js_trim_def is_space_def)
  have a': "accepted afterFirstSearch (lit ''+'' @ 0xA0 # lit ''inflation'')"
    by (simp add: accepted_def c') (simp add: lit_simps afterFirstSearch_eq)
  have j: "lit ''us elections'' @ lit '' + '' @ lit ''inflation'' = lit ''us elections + inflation''"
    by (simp add: lit_simps)
  have l': "lastQuery afterFirstSearch = Some (lit ''us elections'')"
    by (simp add: afterFirstSearch_eq)
  have x': "lastQuery (fst (executeSearch okServices (lit ''+'' @ 0xA0 # lit ''inflation'') False
                     afterFirstSearch)) = Some (lit ''us elections + inflation'')"
    using merge_mode[of afterFirstSearch "lit ''+'' @ 0xA0 # lit ''inflation''" False okServices]
          m' a'
    unfolding d' l' by (simp add: template_def j)
  have m: "searchMode afterFirstSearch (lit ''+inflation'') False = Merge"
    by (simp add: lit_simps searchMode_Merge_iff afterFirstSearch_eq)
  have d: "js_trim (drop 1 (lit ''+inflation'')) = (lit ''inflation'')"
    by (simp add: lit_simps js_trim_def is_space_def)
  have c: "cleanQuery afterFirstSearch (lit ''+inflation'') = (lit ''inflation'')"
    by (simp add: lit_simps cleanQuery_def isGeneral_def isMerge_def hasSummary_def afterFirstSearch_eq
          js_trim_def is_space_def)
  have a: "accepted afterFirstSearch (lit ''+inflation'')"
    by (simp add: accepted_def c) (simp add: lit_simps afterFirstSearch_eq)
  have l: "lastQuery afterFirstSearch = Some (lit ''us elections'')"
          "rootQuery afterFirstSearch = Some (lit ''us elections'')"
    by (simp_all add: lit_simps afterFirstSearch_eq)
  show ?thesis
    using merge_mode[of afterFirstSearch "(lit ''+inflation'')" False okServices] m a c l d m' a' x'
    by (simp add: lit_simps template_def)
qed

text \<open>
  Claim C4 as the specification states it fails: after a first search that failed,
  the conversation holds the error message only, no message of kind summary, and
  \<open>+inflation\<close> is still a merge, of the new summary with the empty text.
\<close>

theorem merge_without_summary_counterexample:
  "searchMode afterFailedSearch (lit ''+inflation'') False = Merge \<and>
   \<not> summaryExists afterFailedSearch \<and>
   snd (executeSearch okServices (lit ''+inflation'') False afterFailedSearch) =
     [RelayFetch (lit ''inflation''), SummarizeCSV (lit ''rows''), MergeSummaries [] (lit ''summary'')]"
  by (simp add: lit_simps afterFailedSearch_eq summaryExists_def client_defs Let_def)

section \<open>Mode followup\<close>

text \<open>
  Claim C5, as the code has it. The mode is followup exactly when the text begins
  with neither marker, the conversation is not empty (whatever its messages are),
  \<open>forceNew\<close> is false and the session is a news session. For such an invocation,
  once accepted, the clean query is the trimmed text, root topic and last query are
  not changed, and the one call is the follow-up answer from \<open>summaryText\<close>: the
  text of the most recent summary-bearing message (a message of kind summary whose
  label begins with the news sign), or the empty text when there is none. Nothing
  checks that such a message exists.
\<close>

theorem followup_mode:
  "(searchMode st text forceNew = Followup \<longleftrightarrow>
      \<not> prefix (lit ''~'') text \<and> \<not> prefix (lit ''+'') text \<and> conversation st \<noteq> [] \<and> \<not> forceNew
      \<and> isNewsSession st) \<and>
   (searchMode st text forceNew = Followup \<and> accepted st text \<longrightarrow>
      cleanQuery st text = js_trim text \<and>
      rootQuery (fst (executeSearch sv text forceNew st)) = rootQuery st \<and>
      lastQuery (fst (executeSearch sv text forceNew st)) = lastQuery st \<and>
      snd (executeSearch sv text forceNew st) =
        [AnswerFromSummary (summaryText st) (js_trim text)]) \<and>
   (\<forall>older m newer.
      conversation st = older @ m # newer \<and> isNewsSummary m \<and>
      filter isNewsSummary newer = [] \<longrightarrow> summaryText st = msg_text m) \<and>
   (filter isNewsSummary (conversation st) = [] \<longrightarrow> summaryText st = [])"
proof -
  have c: "cleanQuery st text = js_trim text" if "searchMode st text forceNew = Followup"
    using that by (auto simp: searchMode_def cleanQuery_def split: if_splits)
  have calls: "snd (executeSearch sv text forceNew st) =
        [AnswerFromSummary (summaryText st) (js_trim text)]"
    if "searchMode st text forceNew = Followup" "accepted st text"
    using that c by (simp add: accepted_executeSearch runMode_def)
  have s1: "summaryText st = msg_text m"
    if "conversation st = older @ m # newer" "isNewsSummary m" "filter isNewsSummary newer = []"
    for older m newer
    using that by (intro summaryText_last[of st older m newer]) (auto simp: filter_empty_conv)
  have s2: "summaryText st = []" if "filter isNewsSummary (conversation st) = []"
    using that by (rule summaryText_none)
  show ?thesis
    using c calls s1 s2 beforeTry_Followup(1,2)[of st "text" forceNew]
    by (auto simp: searchMode_Followup_iff executeSearch_lastQuery_rootQuery)
qed

theorem followup_mode_witness:
  "searchMode afterFirstSearch (lit ''what about turnout'') False = Followup \<and>
   accepted afterFirstSearch (lit ''what about turnout'') \<and>
   cleanQuery afterFirstSearch (lit ''what about turnout'') = (lit ''what about turnout'') \<and>
   rootQuery (fst (executeSearch okServices (lit ''what about turnout'') False afterFirstSearch)) =
     Some (lit ''us elections'') \<and>
   snd (executeSearch okServices (lit ''what about turnout'') False afterFirstSearch) =
     [AnswerFromSummary (lit ''summary'') (lit ''what about turnout'')]"
proof -
  have m: "searchMode afterFirstSearch (lit ''what about turnout'') False = Followup"
    by (simp add: lit_simps searchMode_Followup_iff afterFirstSearch_eq)
  have t: "js_trim (lit ''what about turnout'') = (lit ''what about turnout'')"
    by (simp add: lit_simps js_trim_def is_space_def)
  have c: "cleanQuery afterFirstSearch (lit ''what about turnout'') = (lit ''what about turnout'')"
    by (simp add: lit_simps cleanQuery_def isGeneral_def isMerge_def js_trim_def is_space_def)
  have a: "accepted afterFirstSearch (lit ''what about turnout'')"
    by (simp add: accepted_def c) (simp add: lit_simps afterFirstSearch_eq)
  have s: "summaryText afterFirstSearch = (lit ''summary'')"
    by (simp add: lit_simps afterFirstSearch_eq summaryText_def isNewsSummary_def newMessage_def
          icon_news_def)
  have r: "rootQuery afterFirstSearch = Some (lit ''us elections'')" by (simp add: lit_simps afterFirstSearch_eq)
  show ?thesis
    using followup_mode[of afterFirstSearch "(lit ''what about turnout'')" False okServices] m a c s r t
    by (simp add: lit_simps)
qed

text \<open>
  Claim C5 as the specification states it fails: after a first search that failed
  the conversation holds no message of kind summary at all, the mode is followup all
  the same, and the question is answered from the empty context without any failure.
\<close>

theorem followup_without_summary_counterexample:
  "searchMode afterFailedSearch (lit ''what about turnout'') False = Followup \<and>
   \<not> summaryExists afterFailedSearch \<and>
   snd (executeSearch okServices (lit ''what about turnout'') False afterFailedSearch) =
     [AnswerFromSummary [] (lit ''what about turnout'')] \<and>
   conversation (fst (executeSearch okServices (lit ''what about turnout'') False afterFailedSearch)) =
     [errorMessage (lit ''Service Unavailable'') 0,
      \<lparr>msg_id = 1, msg_type = Question, msg_text = icon_news @ (lit '' what about turnout''),
        isUser = True, initialQuery = None\<rparr>,
      newMessage Followup (lit ''what about turnout'') (lit ''reply'') 2]"
  by (simp add: lit_simps afterFailedSearch_eq summaryExists_def client_defs Let_def)

end
